theory Spec2Isabelle
  imports Main "HOL-Library.AList"
begin

section \<open>The task runner of nbgwas\_rest (nbgwas\_taskrunner.py)\<close>

text \<open>
  A shallow embedding of \<^verbatim>\<open>FileBasedTask\<close>, \<^verbatim>\<open>FileBasedSubmittedTaskFactory\<close> and
  \<^verbatim>\<open>NbgwasTaskRunner\<close>. Python objects are records, \<^verbatim>\<open>None\<close>-able attributes are
  options, every \<^verbatim>\<open>raise\<close> is an \<open>Inl\<close> result, and the filesystem is an explicit
  state that every operation takes and returns. Logging calls are left out, except
  where building the log line can itself raise.
\<close>

subsection \<open>Constants of the nbgwas\_rest package\<close>

text \<open>
  Modelled from the spec: the string constants of \<^verbatim>\<open>nbgwas_rest/__init__.py\<close>, which is
  not among the sources. The spec names the states (submitted, processing, done, and the
  synthetic error state), the files of a task directory and the fields of the record.
\<close>

definition SUBMITTED_STATUS :: string where "SUBMITTED_STATUS = ''submitted''"
definition PROCESSING_STATUS :: string where "PROCESSING_STATUS = ''processing''"
definition DONE_STATUS :: string where "DONE_STATUS = ''done''"
definition ERROR_STATUS :: string where "ERROR_STATUS = ''error''"
definition TASK_JSON :: string where "TASK_JSON = ''task.json''"
definition RESULT :: string where "RESULT = ''result.json''"
definition NETWORK_DATA :: string where "NETWORK_DATA = ''network.dat''"
definition ALPHA_PARAM :: string where "ALPHA_PARAM = ''alpha''"
definition SEEDS_PARAM :: string where "SEEDS_PARAM = ''seeds''"
definition NDEX_PARAM :: string where "NDEX_PARAM = ''ndex''"
definition ERROR_PARAM :: string where "ERROR_PARAM = ''error''"

subsection \<open>Python values and exceptions\<close>

text \<open>
  What \<^verbatim>\<open>json.load\<close> can return: \<^verbatim>\<open>None\<close>, a bool, a number (kept as its literal, no
  operation of the runner computes with one), a string, a list, or a dict with string
  keys (an association list in insertion order).
\<close>

datatype pyval =
    PyNone
  | PyBool bool
  | PyNum string
  | PyStr string
  | PyList "pyval list"
  | PyDict "(string \<times> pyval) list"

text \<open>The subclasses of \<^verbatim>\<open>Exception\<close> that can arise, each with the text of \<^verbatim>\<open>str(e)\<close>
  (for a \<^verbatim>\<open>KeyError\<close>, the key).\<close>

datatype exn =
    KeyError string
  | TypeError string
  | AttributeError string
  | ValueError string
  | OSError string
  | ShutilError string
  | CollaboratorError string

fun str_exn :: "exn \<Rightarrow> string" where
  "str_exn (KeyError k) = [CHR 0x27] @ k @ [CHR 0x27]"
| "str_exn (TypeError m) = m"
| "str_exn (AttributeError m) = m"
| "str_exn (ValueError m) = m"
| "str_exn (OSError m) = m"
| "str_exn (ShutilError m) = m"
| "str_exn (CollaboratorError m) = m"

text \<open>\<^verbatim>\<open>d[k]\<close> for a string key \<open>k\<close>.\<close>

definition getitem :: "pyval \<Rightarrow> string \<Rightarrow> exn + pyval" where
  "getitem d k =
     (case d of
        PyDict kvs \<Rightarrow> (case map_of kvs k of None \<Rightarrow> Inl (KeyError k) | Some v \<Rightarrow> Inr v)
      | _ \<Rightarrow> Inl (TypeError ''indices must be integers''))"

text \<open>\<^verbatim>\<open>d[k] = v\<close> for a string key \<open>k\<close>.\<close>

definition setitem :: "pyval \<Rightarrow> string \<Rightarrow> pyval \<Rightarrow> exn + pyval" where
  "setitem d k v =
     (case d of
        PyDict kvs \<Rightarrow> Inr (PyDict (AList.update k v kvs))
      | _ \<Rightarrow> Inl (TypeError ''object does not support item assignment''))"

fun is_prefix :: "string \<Rightarrow> string \<Rightarrow> bool" where
  "is_prefix [] s = True"
| "is_prefix (c # k) [] = False"
| "is_prefix (c # k) (d # s) = (c = d \<and> is_prefix k s)"

fun is_substring :: "string \<Rightarrow> string \<Rightarrow> bool" where
  "is_substring k [] = (k = [])"
| "is_substring k (d # s) = (is_prefix k (d # s) \<or> is_substring k s)"

text \<open>\<^verbatim>\<open>k in d\<close> for a string \<open>k\<close>: a key of a dict, an element of a list, a substring
  of a string, a \<^verbatim>\<open>TypeError\<close> otherwise.\<close>

definition contains :: "pyval \<Rightarrow> string \<Rightarrow> exn + bool" where
  "contains d k =
     (case d of
        PyDict kvs \<Rightarrow> Inr (k \<in> set (map fst kvs))
      | PyList xs \<Rightarrow> Inr (PyStr k \<in> set xs)
      | PyStr s \<Rightarrow> Inr (is_substring k s)
      | _ \<Rightarrow> Inl (TypeError ''argument is not iterable''))"

text \<open>\<^verbatim>\<open>s.split(',')\<close>: never the empty list.\<close>

fun split_comma :: "string \<Rightarrow> string list" where
  "split_comma [] = [[]]"
| "split_comma (c # s) =
     (if c = CHR '','' then [] # split_comma s
      else (case split_comma s of
              [] \<Rightarrow> [[c]]
            | w # ws \<Rightarrow> (c # w) # ws))"

subsection \<open>Paths (posixpath)\<close>

text \<open>\<^verbatim>\<open>os.path.join(a, b)\<close>.\<close>

definition path_join :: "string \<Rightarrow> string \<Rightarrow> string" where
  "path_join a b =
     (if b \<noteq> [] \<and> hd b = CHR ''/'' then b
      else if a = [] \<or> last a = CHR ''/'' then a @ b
      else a @ ''/'' @ b)"

text \<open>\<^verbatim>\<open>(p[:i], p[i:])\<close> with \<^verbatim>\<open>i = p.rfind('/') + 1\<close>.\<close>

definition path_split :: "string \<Rightarrow> string \<times> string" where
  "path_split p =
     (rev (dropWhile (\<lambda>c. c \<noteq> CHR ''/'') (rev p)),
      rev (takeWhile (\<lambda>c. c \<noteq> CHR ''/'') (rev p)))"

definition rstrip_sep :: "string \<Rightarrow> string" where
  "rstrip_sep s = rev (dropWhile (\<lambda>c. c = CHR ''/'') (rev s))"

text \<open>\<^verbatim>\<open>os.path.basename\<close> and \<^verbatim>\<open>os.path.dirname\<close>.\<close>

definition basename :: "string \<Rightarrow> string" where
  "basename p = snd (path_split p)"

definition dirname :: "string \<Rightarrow> string" where
  "dirname p =
     (let head = fst (path_split p) in
      if head \<noteq> [] \<and> head \<noteq> replicate (length head) (CHR ''/'')
      then rstrip_sep head else head)"

subsection \<open>The filesystem\<close>

text \<open>
  The directory tree the runner works on: the directories and the files by path (compared
  as normalised strings, as \<^verbatim>\<open>main\<close> passes \<^verbatim>\<open>os.path.abspath\<close> of the task root), and a
  log of the mutating calls that succeeded, in order, each with the arguments of the
  call. A file holds the serialisation of a JSON value, or text that \<^verbatim>\<open>json.load\<close>
  rejects.
\<close>

datatype fcontent = JsonText pyval | RawText string

datatype fsop = OpWrite string fcontent | OpMove string string

record filesystem =
  dirs :: "string list"
  files :: "(string \<times> fcontent) list"
  oplog :: "fsop list"

definition isdir :: "filesystem \<Rightarrow> string \<Rightarrow> bool" where
  "isdir fs p = (p \<in> set (dirs fs))"

definition isfile :: "filesystem \<Rightarrow> string \<Rightarrow> bool" where
  "isfile fs p = (p \<in> set (map fst (files fs)))"

definition lexists :: "filesystem \<Rightarrow> string \<Rightarrow> bool" where
  "lexists fs p = (isdir fs p \<or> isfile fs p)"

text \<open>\<^verbatim>\<open>os.listdir(d)\<close>, called only after \<^verbatim>\<open>os.path.isdir(d)\<close>: the names of the entries
  directly under \<open>d\<close>, in the order the model stores them.\<close>

definition listdir :: "filesystem \<Rightarrow> string \<Rightarrow> string list" where
  "listdir fs d =
     map basename
       (filter (\<lambda>p. dirname p = d \<and> basename p \<noteq> []) (dirs fs @ map fst (files fs)))"

text \<open>\<^verbatim>\<open>json.load(f)\<close>.\<close>

definition json_load :: "fcontent \<Rightarrow> exn + pyval" where
  "json_load c =
     (case c of
        JsonText v \<Rightarrow> Inr v
      | RawText s \<Rightarrow> Inl (ValueError ''No JSON object could be decoded''))"

text \<open>\<^verbatim>\<open>with open(p, 'r') as f: json.load(f)\<close>.\<close>

definition read_json :: "filesystem \<Rightarrow> string \<Rightarrow> exn + pyval" where
  "read_json fs p =
     (case map_of (files fs) p of
        None \<Rightarrow> Inl (OSError ''No such file or directory'')
      | Some c \<Rightarrow> json_load c)"

text \<open>\<^verbatim>\<open>with open(p, 'w') as f: json.dump(v, f)\<close>: the parent directory must exist.\<close>

definition write_json :: "string \<Rightarrow> pyval \<Rightarrow> filesystem \<Rightarrow> exn + filesystem" where
  "write_json p v fs =
     (if isdir fs p then Inl (OSError ''Is a directory'')
      else if isdir fs (dirname p) then
        Inr (fs\<lparr>files := (p, JsonText v) # filter (\<lambda>e. fst e \<noteq> p) (files fs),
                oplog := oplog fs @ [OpWrite p (JsonText v)]\<rparr>)
      else Inl (OSError ''No such file or directory''))"

text \<open>The proper ancestors of a path, nearest first.\<close>

fun ancestors_upto :: "nat \<Rightarrow> string \<Rightarrow> string list" where
  "ancestors_upto 0 p = []"
| "ancestors_upto (Suc n) p =
     (let d = dirname p in if d = p \<or> d = [] then [] else d # ancestors_upto n d)"

definition ancestors :: "string \<Rightarrow> string list" where
  "ancestors p = ancestors_upto (length p) p"

definition under :: "string \<Rightarrow> string \<Rightarrow> bool" where
  "under src p = (p = src \<or> take (Suc (length src)) p = src @ ''/'')"

definition rebase :: "string \<Rightarrow> string \<Rightarrow> string \<Rightarrow> string" where
  "rebase src dst p = (if under src p then dst @ drop (length src) p else p)"

text \<open>A directory and everything under it renamed; the missing ancestors of the new
  path are created (\<^verbatim>\<open>shutil.move\<close> falls back to \<^verbatim>\<open>copytree\<close>, which calls
  \<^verbatim>\<open>os.makedirs\<close>, when \<^verbatim>\<open>os.rename\<close> finds no parent directory).\<close>

definition rename_tree :: "string \<Rightarrow> string \<Rightarrow> filesystem \<Rightarrow> filesystem" where
  "rename_tree src dst fs =
     fs\<lparr>dirs := map (rebase src dst) (dirs fs)
                 @ filter (\<lambda>a. a \<notin> set (dirs fs)) (rev (ancestors dst)),
        files := map (\<lambda>e. (rebase src dst (fst e), snd e)) (files fs)\<rparr>"

text \<open>\<^verbatim>\<open>os.rename(src, real_dst)\<close> with the fallback of \<^verbatim>\<open>shutil.move\<close> when it fails;
  \<open>dst\<close> is the destination as the caller gave it.\<close>

definition do_move :: "string \<Rightarrow> string \<Rightarrow> string \<Rightarrow> filesystem \<Rightarrow> exn + filesystem" where
  "do_move src dst real_dst fs =
     (if isdir fs src then
        (if take (Suc (length src)) dst = src @ ''/'' then
           Inl (ShutilError ''Cannot move a directory into itself'')
         else if isfile fs real_dst then Inl (OSError ''File exists'')
         else if list_ex (isfile fs) (ancestors real_dst) then Inl (OSError ''Not a directory'')
         else Inr (rename_tree src real_dst fs))
      else (case map_of (files fs) src of
              None \<Rightarrow> Inl (OSError ''No such file or directory'')
            | Some c \<Rightarrow>
                if isdir fs (dirname real_dst) then
                  Inr (fs\<lparr>files := (real_dst, c)
                            # filter (\<lambda>e. fst e \<noteq> src \<and> fst e \<noteq> real_dst) (files fs)\<rparr>)
                else Inl (OSError ''No such file or directory'')))"

text \<open>\<^verbatim>\<open>shutil.move(src, dst)\<close>: into \<open>dst\<close> when that is an existing directory other than
  \<open>src\<close> itself, onto \<open>dst\<close> otherwise.\<close>

definition shutil_move :: "string \<Rightarrow> string \<Rightarrow> filesystem \<Rightarrow> exn + filesystem" where
  "shutil_move src dst fs =
     (case (if isdir fs dst then
              (if src = dst then Inr fs
               else (let real_dst = path_join dst (basename (rstrip_sep src)) in
                     if lexists fs real_dst
                     then Inl (ShutilError ''Destination path already exists'')
                     else do_move src dst real_dst fs))
            else do_move src dst dst fs) of
        Inl e \<Rightarrow> Inl e
      | Inr fs' \<Rightarrow> Inr (fs'\<lparr>oplog := oplog fs' @ [OpMove src dst]\<rparr>))"

subsection \<open>FileBasedTask\<close>

datatype graph = Graph (nodes: "string list") (edges: "(string \<times> string) list")

text \<open>The gene level summary: the rows of the data frame, each a gene and its p-value.\<close>

type_synonym gls = "(string \<times> int) list"

record task =
  taskdir :: "string option"
  taskdict :: pyval
  networkx_obj :: "graph option"
  genelevelsummary :: "gls option"
  filteredseedlist :: "string list option"
  resultdata :: pyval

definition FileBasedTask :: "string option \<Rightarrow> pyval \<Rightarrow> task" where
  "FileBasedTask d td =
     \<lparr>taskdir = d, taskdict = td, networkx_obj = None, genelevelsummary = None,
      filteredseedlist = None, resultdata = PyNone\<rparr>"

record taskattrib =
  basedir :: "string option"
  state :: "string option"
  ipaddr :: "string option"
  uuid :: "string option"

definition get_uuid_ip_state_basedir_from_path :: "task \<Rightarrow> taskattrib" where
  "get_uuid_ip_state_basedir_from_path t =
     (case taskdir t of
        None \<Rightarrow> \<lparr>basedir = None, state = None, ipaddr = None, uuid = None\<rparr>
      | Some d \<Rightarrow>
          (let taskuuid = basename d;
               ipdir = dirname d;
               ipaddr = basename ipdir;
               statedir = dirname ipdir;
               state = basename statedir;
               basedir = dirname statedir
           in \<lparr>basedir = Some basedir, state = Some state, ipaddr = Some ipaddr,
               uuid = Some taskuuid\<rparr>))"

definition get_state :: "task \<Rightarrow> string option" where
  "get_state t = state (get_uuid_ip_state_basedir_from_path t)"

definition get_task_uuid :: "task \<Rightarrow> string option" where
  "get_task_uuid t = uuid (get_uuid_ip_state_basedir_from_path t)"

text \<open>\<^verbatim>\<open>save_task\<close>: the record file, then the result file when a result is attached. The
  task itself is not changed.\<close>

definition save_task :: "task \<Rightarrow> filesystem \<Rightarrow> (exn + string option) \<times> filesystem" where
  "save_task t fs =
     (case taskdir t of
        None \<Rightarrow> (Inr (Some ''Task dir is None''), fs)
      | Some d \<Rightarrow>
          (case write_json (path_join d TASK_JSON) (taskdict t) fs of
             Inl e \<Rightarrow> (Inl e, fs)
           | Inr fs1 \<Rightarrow>
               if resultdata t \<noteq> PyNone then
                 (case write_json (path_join d RESULT) (resultdata t) fs1 of
                    Inl e \<Rightarrow> (Inl e, fs1)
                  | Inr fs2 \<Rightarrow> (Inr None, fs2))
               else (Inr None, fs1)))"

text \<open>\<^verbatim>\<open>os.path.join(basedir, new_state, ipaddr, uuid)\<close>; a \<^verbatim>\<open>None\<close> component is a
  \<^verbatim>\<open>TypeError\<close>.\<close>

definition join_taskdir :: "taskattrib \<Rightarrow> string \<Rightarrow> exn + string" where
  "join_taskdir a new_state =
     (case (basedir a, ipaddr a, uuid a) of
        (Some b, Some i, Some u) \<Rightarrow> Inr (path_join (path_join (path_join b new_state) i) u)
      | _ \<Rightarrow> Inl (TypeError ''expected str, bytes or os.PathLike object, not NoneType''))"

text \<open>\<^verbatim>\<open>move_task(new_state, error_message)\<close>: the value returned or the exception raised,
  the task and the filesystem afterwards.\<close>

definition move_task ::
  "string \<Rightarrow> string option \<Rightarrow> task \<Rightarrow> filesystem
     \<Rightarrow> (exn + string option) \<times> task \<times> filesystem" where
  "move_task new_state error_message t fs =
     (let taskattrib = get_uuid_ip_state_basedir_from_path t in
      if basedir taskattrib = None then
        (Inr (Some ''Unable to extract state basedir from task path''), t, fs)
      else if state taskattrib = Some new_state then (Inr None, t, fs)
      else
        (case (if new_state = ERROR_STATUS then
                 (let emsg = (case error_message of None \<Rightarrow> ''Unknown error'' | Some m \<Rightarrow> m) in
                  case setitem (taskdict t) ERROR_PARAM (PyStr emsg) of
                    Inl e \<Rightarrow> (Inl e, t, fs)
                  | Inr td \<Rightarrow>
                      (case save_task (t\<lparr>taskdict := td\<rparr>) fs of
                         (Inl e, fs1) \<Rightarrow> (Inl e, t\<lparr>taskdict := td\<rparr>, fs1)
                       | (Inr r, fs1) \<Rightarrow> (Inr DONE_STATUS, t\<lparr>taskdict := td\<rparr>, fs1)))
               else (Inr new_state, t, fs)) of
           (Inl e, t1, fs1) \<Rightarrow> (Inl e, t1, fs1)
         | (Inr new_state1, t1, fs1) \<Rightarrow>
             (case join_taskdir taskattrib new_state1 of
                Inl e \<Rightarrow> (Inl e, t1, fs1)
              | Inr ptaskdir \<Rightarrow>
                  (case taskdir t1 of
                     None \<Rightarrow> (Inl (TypeError ''expected str, not NoneType''), t1, fs1)
                   | Some d \<Rightarrow>
                       (case shutil_move d ptaskdir fs1 of
                          Inl e \<Rightarrow> (Inl e, t1, fs1)
                        | Inr fs2 \<Rightarrow> (Inr None, t1\<lparr>taskdir := Some ptaskdir\<rparr>, fs2))))))"

text \<open>\<^verbatim>\<open>FileBasedTask.get_seeds\<close>, \<^verbatim>\<open>get_alpha\<close>: a required field,
  \<^verbatim>\<open>self._taskdict[...]\<close>.\<close>

definition get_seeds :: "task \<Rightarrow> exn + pyval" where
  "get_seeds t = getitem (taskdict t) SEEDS_PARAM"

definition get_alpha :: "task \<Rightarrow> exn + pyval" where
  "get_alpha t = getitem (taskdict t) ALPHA_PARAM"

text \<open>\<^verbatim>\<open>get_ndex\<close>: an optional field, \<^verbatim>\<open>None\<close> when absent.\<close>

definition get_ndex :: "task \<Rightarrow> exn + pyval" where
  "get_ndex t =
     (case contains (taskdict t) NDEX_PARAM of
        Inl e \<Rightarrow> Inl e
      | Inr b \<Rightarrow> if b then getitem (taskdict t) NDEX_PARAM else Inr PyNone)"

text \<open>\<^verbatim>\<open>get_network\<close>: the path of the inline network file, when there is one.\<close>

definition get_network :: "task \<Rightarrow> filesystem \<Rightarrow> string option" where
  "get_network t fs =
     (case taskdir t of
        None \<Rightarrow> None
      | Some d \<Rightarrow>
          (let network_dfile = path_join d NETWORK_DATA in
           if isfile fs network_dfile then Some network_dfile else None))"

subsection \<open>FileBasedSubmittedTaskFactory\<close>

record factory =
  factory_taskdir :: string
  submitdir :: "string option"
  problemlist :: "string list"

definition FileBasedSubmittedTaskFactory :: "string \<Rightarrow> factory" where
  "FileBasedSubmittedTaskFactory td =
     \<lparr>factory_taskdir = td, submitdir = Some (path_join td SUBMITTED_STATUS),
      problemlist = []\<rparr>"

text \<open>The inner loop of \<^verbatim>\<open>get_next_task\<close>, over the listing of one client directory
  \<open>fp\<close>; \<open>pl\<close> is the problem list.\<close>

fun scan_subentries ::
  "filesystem \<Rightarrow> string \<Rightarrow> string list \<Rightarrow> string list \<Rightarrow> task option \<times> string list" where
  "scan_subentries fs fp [] pl = (None, pl)"
| "scan_subentries fs fp (subentry # rest) pl =
     (let subfp = path_join fp subentry in
      if isdir fs subfp then
        (let tjson = path_join subfp TASK_JSON in
         if isfile fs tjson then
           (case read_json fs tjson of
              Inr jsondata \<Rightarrow> (Some (FileBasedTask (Some subfp) jsondata), pl)
            | Inl e \<Rightarrow>
                scan_subentries fs fp rest (if subfp \<notin> set pl then pl @ [subfp] else pl))
         else scan_subentries fs fp rest pl)
      else scan_subentries fs fp rest pl)"

text \<open>The outer loop, over the listing of the submitted directory \<open>sd\<close>.\<close>

fun scan_entries ::
  "filesystem \<Rightarrow> string \<Rightarrow> string list \<Rightarrow> string list \<Rightarrow> task option \<times> string list" where
  "scan_entries fs sd [] pl = (None, pl)"
| "scan_entries fs sd (entry # rest) pl =
     (let fp = path_join sd entry in
      if isdir fs fp then
        (case scan_subentries fs fp (listdir fs fp) pl of
           (Some t, pl') \<Rightarrow> (Some t, pl')
         | (None, pl') \<Rightarrow> scan_entries fs sd rest pl')
      else scan_entries fs sd rest pl)"

definition get_next_task :: "factory \<Rightarrow> filesystem \<Rightarrow> task option \<times> factory" where
  "get_next_task f fs =
     (case submitdir f of
        None \<Rightarrow> (None, f)
      | Some sd \<Rightarrow>
          if isdir fs sd then
            (case scan_entries fs sd (listdir fs sd) (problemlist f) of
               (r, pl) \<Rightarrow> (r, f\<lparr>problemlist := pl\<rparr>))
          else (None, f))"

text \<open>The loop of \<^verbatim>\<open>clean_up_problem_list\<close>: a Python \<^verbatim>\<open>for\<close> over a list walks an index
  and tests it against the current length at every step, while the body removes the
  first occurrence of the entry from that same list.\<close>

function clean_up_loop ::
  "nat \<Rightarrow> string list \<Rightarrow> filesystem \<Rightarrow> (exn + unit) \<times> string list \<times> filesystem" where
  "clean_up_loop i pl fs =
     (if i < length pl then
        (case move_task ERROR_STATUS (Some ''Unknown error with task'')
                (FileBasedTask (Some (pl ! i)) (PyDict [])) fs of
           (Inl e, t, fs') \<Rightarrow> (Inl e, pl, fs')
         | (Inr r, t, fs') \<Rightarrow> clean_up_loop (Suc i) (remove1 (pl ! i) pl) fs')
      else (Inr (), pl, fs))"
  by pat_completeness auto
termination
  by (relation "measure (\<lambda>(i, pl, fs). length pl - i)") (auto simp: length_remove1)

definition clean_up_problem_list ::
  "factory \<Rightarrow> filesystem \<Rightarrow> (exn + unit) \<times> factory \<times> filesystem" where
  "clean_up_problem_list f fs =
     (case clean_up_loop 0 (problemlist f) fs of
        (r, pl, fs') \<Rightarrow> (r, f\<lparr>problemlist := pl\<rparr>, fs'))"

definition get_size_of_problem_list :: "factory \<Rightarrow> nat" where
  "get_size_of_problem_list f = length (problemlist f)"

subsection \<open>NbgwasTaskRunner\<close>

text \<open>
  The libraries the pipeline calls (pandas and networkx on the inline network file, the
  NDEx client, and Nbgwas) are parameters: each returns its value or raises.
\<close>

record collaborators =
  sif_to_graph :: "fcontent \<Rightarrow> exn + graph"
  ndex_to_graph :: "string \<Rightarrow> pyval \<Rightarrow> exn + graph"
  nbgwas_convert_to_heat :: "gls option \<Rightarrow> graph option \<Rightarrow> exn option"
  nbgwas_diffuse :: "gls option \<Rightarrow> graph option \<Rightarrow> pyval \<Rightarrow> exn + pyval"

definition get_networkx_object_from_sif_file ::
  "collaborators \<Rightarrow> filesystem \<Rightarrow> string \<Rightarrow> exn + graph option" where
  "get_networkx_object_from_sif_file c fs sif_file =
     (case map_of (files fs) sif_file of
        None \<Rightarrow> Inr None
      | Some content \<Rightarrow>
          (case sif_to_graph c content of Inl e \<Rightarrow> Inl e | Inr g \<Rightarrow> Inr (Some g)))"

text \<open>\<^verbatim>\<open>_get_networkx_object\<close>; \<open>server\<close> is \<^verbatim>\<open>self._ndex_server\<close>.\<close>

definition runner_get_networkx_object ::
  "collaborators \<Rightarrow> string \<Rightarrow> task \<Rightarrow> filesystem \<Rightarrow> exn + graph option" where
  "runner_get_networkx_object c server t fs =
     (case get_network t fs of
        Some sif_file \<Rightarrow> get_networkx_object_from_sif_file c fs sif_file
      | None \<Rightarrow>
          (case get_ndex t of
             Inl e \<Rightarrow> Inl e
           | Inr PyNone \<Rightarrow> Inr None
           | Inr ndex_id \<Rightarrow>
               (case ndex_to_graph c server ndex_id of
                  Inl e \<Rightarrow> Inl e
                | Inr g \<Rightarrow> Inr (Some g))))"

text \<open>The loop of \<^verbatim>\<open>_get_seeds\<close>: the same pattern, a \<^verbatim>\<open>for\<close> over \<open>slist\<close> whose body
  removes from \<open>slist\<close>; \<open>ns\<close> are the nodes of the graph.\<close>

function seeds_loop :: "nat \<Rightarrow> string list \<Rightarrow> string list \<Rightarrow> string list" where
  "seeds_loop i slist ns =
     (if i < length slist then
        (if slist ! i \<notin> set ns then seeds_loop (Suc i) (remove1 (slist ! i) slist) ns
         else seeds_loop (Suc i) slist ns)
      else slist)"
  by pat_completeness auto
termination
  by (relation "measure (\<lambda>(i, slist, ns). length slist - i)") (auto simp: length_remove1)

text \<open>\<^verbatim>\<open>_get_seeds\<close>.\<close>

definition runner_get_seeds :: "task \<Rightarrow> exn + string list option" where
  "runner_get_seeds t =
     (case get_seeds t of
        Inl e \<Rightarrow> Inl e
      | Inr PyNone \<Rightarrow> Inr None
      | Inr (PyStr s) \<Rightarrow>
          (case networkx_obj t of
             None \<Rightarrow> Inl (AttributeError ''NoneType object has no attribute nodes'')
           | Some g \<Rightarrow>
               (let slist = seeds_loop 0 (split_comma s) (nodes g) in
                if length slist = 0 then Inr None else Inr (Some slist)))
      | Inr v \<Rightarrow> Inl (AttributeError ''object has no attribute split''))"

text \<open>\<^verbatim>\<open>_create_gene_level_summary\<close>: one row per node with p-value 1, then p-value 0
  on the rows whose gene is in the filtered seed list.\<close>

definition create_gene_level_summary :: "task \<Rightarrow> exn + gls option" where
  "create_gene_level_summary t =
     (case networkx_obj t of
        None \<Rightarrow> Inl (AttributeError ''NoneType object has no attribute nodes'')
      | Some g \<Rightarrow>
          (let gls = map (\<lambda>n. (n, 1)) (nodes g) in
           case filteredseedlist t of
             None \<Rightarrow> Inl (TypeError ''only list-like objects are allowed to be passed to isin()'')
           | Some sl \<Rightarrow>
               Inr (Some (map (\<lambda>row. if fst row \<in> set sl then (fst row, 0) else row) gls))))"

text \<open>\<^verbatim>\<open>_run_nbgwas\<close>: the alpha field is read after the heat conversion.\<close>

definition run_nbgwas :: "collaborators \<Rightarrow> task \<Rightarrow> exn + pyval" where
  "run_nbgwas c t =
     (case nbgwas_convert_to_heat c (genelevelsummary t) (networkx_obj t) of
        Some e \<Rightarrow> Inl e
      | None \<Rightarrow>
          (case get_alpha t of
             Inl e \<Rightarrow> Inl e
           | Inr a \<Rightarrow> nbgwas_diffuse c (genelevelsummary t) (networkx_obj t) a))"

text \<open>A call whose value is dropped, followed by \<^verbatim>\<open>return\<close>.\<close>

definition and_return ::
  "(exn + 'a) \<times> task \<times> filesystem \<Rightarrow> (exn + unit) \<times> task \<times> filesystem" where
  "and_return r =
     (case r of (Inl e, t, fs) \<Rightarrow> (Inl e, t, fs) | (Inr v, t, fs) \<Rightarrow> (Inr (), t, fs))"

text \<open>
  \<^verbatim>\<open>_process_task\<close>, block by block, the last block first: each definition is one
  block of the method together with everything after it. The diffusion block (lines
  492 to 503):
\<close>

definition process_diffusion ::
  "collaborators \<Rightarrow> task \<Rightarrow> filesystem \<Rightarrow> (exn + unit) \<times> task \<times> filesystem" where
  "process_diffusion c t4 fs =
     (case run_nbgwas c t4 of
        Inl e \<Rightarrow> (Inl e, t4, fs)
      | Inr result \<Rightarrow>
          if result = PyNone then
            and_return (move_task ERROR_STATUS (Some ''No result generated'') t4 fs)
          else
            (let t5 = t4\<lparr>resultdata := result\<rparr> in
             case save_task t5 fs of
               (Inl e, fs1) \<Rightarrow> (Inl e, t5, fs1)
             | (Inr r, fs1) \<Rightarrow> and_return (move_task DONE_STATUS None t5 fs1)))"

text \<open>The gene level summary block (lines 483 to 490).\<close>

definition process_summary ::
  "collaborators \<Rightarrow> task \<Rightarrow> filesystem \<Rightarrow> (exn + unit) \<times> task \<times> filesystem" where
  "process_summary c t3 fs =
     (case create_gene_level_summary t3 of
        Inl e \<Rightarrow> (Inl e, t3, fs)
      | Inr None \<Rightarrow>
          and_return (move_task ERROR_STATUS (Some ''Unable to create gene level summary'') t3 fs)
      | Inr (Some gls) \<Rightarrow> process_diffusion c (t3\<lparr>genelevelsummary := Some gls\<rparr>) fs)"

text \<open>The seed block (lines 474 to 481).\<close>

definition process_seeds ::
  "collaborators \<Rightarrow> task \<Rightarrow> filesystem \<Rightarrow> (exn + unit) \<times> task \<times> filesystem" where
  "process_seeds c t2 fs =
     (case runner_get_seeds t2 of
        Inl e \<Rightarrow> (Inl e, t2, fs)
      | Inr None \<Rightarrow> and_return (move_task ERROR_STATUS (Some ''No seeds are in network'') t2 fs)
      | Inr (Some seed_list) \<Rightarrow>
          if length seed_list = 0 then
            and_return (move_task ERROR_STATUS (Some ''No seeds are in network'') t2 fs)
          else process_summary c (t2\<lparr>filteredseedlist := Some seed_list\<rparr>) fs)"

text \<open>The network block (lines 465 to 472).\<close>

definition process_network ::
  "collaborators \<Rightarrow> string \<Rightarrow> task \<Rightarrow> filesystem \<Rightarrow> (exn + unit) \<times> task \<times> filesystem" where
  "process_network c server t1 fs =
     (case runner_get_networkx_object c server t1 fs of
        Inl e \<Rightarrow> (Inl e, t1, fs)
      | Inr None \<Rightarrow>
          and_return
            (move_task ERROR_STATUS (Some ''Unable to get networkx object for task'') t1 fs)
      | Inr (Some n_obj) \<Rightarrow> process_seeds c (t1\<lparr>networkx_obj := Some n_obj\<rparr>) fs)"

text \<open>The start of \<^verbatim>\<open>_process_task\<close> (lines 462 and 463). Its first line concatenates the
  task directory into a log line, a \<^verbatim>\<open>TypeError\<close> when that is \<^verbatim>\<open>None\<close>.\<close>

definition process_task ::
  "collaborators \<Rightarrow> string \<Rightarrow> task \<Rightarrow> filesystem \<Rightarrow> (exn + unit) \<times> task \<times> filesystem" where
  "process_task c server t0 fs0 =
     (case taskdir t0 of
        None \<Rightarrow> (Inl (TypeError ''must be str, not NoneType''), t0, fs0)
      | Some d0 \<Rightarrow>
          (case move_task PROCESSING_STATUS None t0 fs0 of
             (Inl e, t1, fs) \<Rightarrow> (Inl e, t1, fs)
           | (Inr r, t1, fs) \<Rightarrow> process_network c server t1 fs))"

text \<open>
  One iteration of the \<^verbatim>\<open>while True\<close> loop of \<^verbatim>\<open>run_tasks\<close>: the exception that leaves
  the loop, if any, and the state afterwards. \<^verbatim>\<open>time.sleep\<close> changes nothing here: no
  producer writes to the tree while the runner sleeps.
\<close>

record runner_state =
  taskfactory :: factory
  cleanupcounter :: nat
  fsys :: filesystem

definition run_tasks_body ::
  "collaborators \<Rightarrow> string \<Rightarrow> runner_state \<Rightarrow> exn option \<times> runner_state" where
  "run_tasks_body c server st =
     (case get_next_task (taskfactory st) (fsys st) of
        (None, f) \<Rightarrow>
          (if get_size_of_problem_list f > 0 then
             (let cc = cleanupcounter st + 1 in
              if cc \<ge> 3 then
                (case clean_up_problem_list f (fsys st) of
                   (Inl e, f', fs') \<Rightarrow>
                     (Some e, \<lparr>taskfactory = f', cleanupcounter = cc, fsys = fs'\<rparr>)
                 | (Inr u, f', fs') \<Rightarrow>
                     (None, \<lparr>taskfactory = f', cleanupcounter = 0, fsys = fs'\<rparr>))
              else (None, \<lparr>taskfactory = f, cleanupcounter = cc, fsys = fsys st\<rparr>))
           else (None, \<lparr>taskfactory = f, cleanupcounter = cleanupcounter st, fsys = fsys st\<rparr>))
      | (Some task, f) \<Rightarrow>
          (case process_task c server task (fsys st) of
             (Inr u, t, fs) \<Rightarrow>
               (None, \<lparr>taskfactory = f, cleanupcounter = cleanupcounter st, fsys = fs\<rparr>)
           | (Inl e, t, fs) \<Rightarrow>
               (case taskdir t of
                  None \<Rightarrow>
                    (Some (TypeError ''must be str, not NoneType''),
                     \<lparr>taskfactory = f, cleanupcounter = cleanupcounter st, fsys = fs\<rparr>)
                | Some d \<Rightarrow>
                    (case move_task ERROR_STATUS
                            (Some (''Caught exception processing task: '' @ d @ '' : '' @ str_exn e))
                            t fs of
                       (Inl e', t', fs') \<Rightarrow>
                         (Some e', \<lparr>taskfactory = f, cleanupcounter = cleanupcounter st, fsys = fs'\<rparr>)
                     | (Inr r, t', fs') \<Rightarrow>
                         (None, \<lparr>taskfactory = f, cleanupcounter = cleanupcounter st, fsys = fs'\<rparr>)))))"

text \<open>\<^verbatim>\<open>run_tasks\<close>, for at most \<open>n\<close> iterations: \<open>Some e\<close> when the exception \<open>e\<close> left the
  loop (and so the runner), \<open>None\<close> when the loop is still running.\<close>

fun run_tasks ::
  "nat \<Rightarrow> collaborators \<Rightarrow> string \<Rightarrow> runner_state \<Rightarrow> exn option \<times> runner_state" where
  "run_tasks 0 c server st = (None, st)"
| "run_tasks (Suc n) c server st =
     (case run_tasks_body c server st of
        (Some e, st') \<Rightarrow> (Some e, st')
      | (None, st') \<Rightarrow> run_tasks n c server st')"

subsection \<open>Notions the properties are stated with\<close>

text \<open>A path component: no separator in it.\<close>

definition slash_free :: "string \<Rightarrow> bool" where
  "slash_free n = (CHR ''/'' \<notin> set n)"

text \<open>A path without a trailing separator (or made of separators only, as the root
  is): what \<^verbatim>\<open>os.path.abspath\<close> and \<^verbatim>\<open>os.path.dirname\<close> return.\<close>

definition normal :: "string \<Rightarrow> bool" where
  "normal a = (a = [] \<or> last a \<noteq> CHR ''/'' \<or> a = replicate (length a) (CHR ''/''))"

text \<open>A directory name, as \<^verbatim>\<open>os.listdir\<close> returns them.\<close>

definition is_name :: "string \<Rightarrow> bool" where
  "is_name n = (n \<noteq> [] \<and> slash_free n)"

text \<open>The directory of a task, \<^verbatim>\<open>{base}/{state}/{client-address}/{uuid}\<close>.\<close>

definition task_path :: "string \<Rightarrow> string \<Rightarrow> string \<Rightarrow> string \<Rightarrow> string" where
  "task_path base st client u = path_join (path_join (path_join base st) client) u"

text \<open>The state a task directory path encodes.\<close>

definition state_of_path :: "string \<Rightarrow> string" where
  "state_of_path d = basename (dirname (dirname d))"

text \<open>Where \<^verbatim>\<open>move_task\<close> sends the task directory \<open>d\<close> for a new state.\<close>

definition relocated :: "string \<Rightarrow> string \<Rightarrow> string" where
  "relocated d new_state =
     task_path (dirname (dirname (dirname d))) new_state (basename (dirname d)) (basename d)"

text \<open>The order of the states along the lifecycle.\<close>

definition state_rank :: "string \<Rightarrow> nat option" where
  "state_rank s =
     (if s = SUBMITTED_STATUS then Some 0
      else if s = PROCESSING_STATUS then Some 1
      else if s = DONE_STATUS then Some 2
      else None)"

text \<open>A logged operation that moves no task directory backward or sideways: a write, or
  a move from a path in one state to a path in a strictly later state.\<close>

definition forward_move :: "fsop \<Rightarrow> bool" where
  "forward_move op =
     (case op of
        OpWrite p c \<Rightarrow> True
      | OpMove src dst \<Rightarrow>
          (case (state_rank (state_of_path src), state_rank (state_of_path dst)) of
             (Some r, Some r') \<Rightarrow> r < r'
           | _ \<Rightarrow> False))"

text \<open>The log of \<open>fs'\<close> extends the log of \<open>fs\<close>, by forward operations only.\<close>

definition forward_since :: "filesystem \<Rightarrow> filesystem \<Rightarrow> bool" where
  "forward_since fs fs' =
     (take (length (oplog fs)) (oplog fs') = oplog fs
      \<and> list_all forward_move (drop (length (oplog fs)) (oplog fs')))"

text \<open>The error messages the pipeline stores other than the one of the summary block, and
  what the pipeline may have done to the metadata of a task: nothing, or stored one of
  them under the error key.\<close>

definition pipeline_messages :: "string list" where
  "pipeline_messages =
     [''Unable to get networkx object for task'', ''No seeds are in network'',
      ''No result generated'']"

definition stored_error :: "task \<Rightarrow> task \<Rightarrow> bool" where
  "stored_error t t' =
     (taskdict t' = taskdict t
      \<or> list_ex (\<lambda>m. setitem (taskdict t) ERROR_PARAM (PyStr m) = Inr (taskdict t'))
           pipeline_messages)"

text \<open>The task directories \<^verbatim>\<open>get_next_task\<close> looks at, in scan order: the directories one
  level under the client directories of the submitted directory \<open>sd\<close>.\<close>

definition candidates :: "filesystem \<Rightarrow> string \<Rightarrow> string list" where
  "candidates fs sd =
     concat (map (\<lambda>entry.
                    if isdir fs (path_join sd entry)
                    then filter (isdir fs)
                           (map (path_join (path_join sd entry))
                              (listdir fs (path_join sd entry)))
                    else [])
               (listdir fs sd))"

text \<open>A task directory whose record file is there and parses, and one whose record file
  is there and does not.\<close>

definition readable :: "filesystem \<Rightarrow> string \<Rightarrow> bool" where
  "readable fs d =
     (isfile fs (path_join d TASK_JSON)
      \<and> (case read_json fs (path_join d TASK_JSON) of Inr v \<Rightarrow> True | Inl e \<Rightarrow> False))"

definition unparseable :: "filesystem \<Rightarrow> string \<Rightarrow> bool" where
  "unparseable fs d =
     (isfile fs (path_join d TASK_JSON)
      \<and> (case read_json fs (path_join d TASK_JSON) of Inr v \<Rightarrow> False | Inl e \<Rightarrow> True))"

text \<open>The scan as the spec words it, one pass over the candidates: the first readable
  one is returned; an unparseable one is added to the quarantine list unless it is in it
  and skipped; one without a record file is skipped.\<close>

fun scan_candidates ::
  "filesystem \<Rightarrow> string list \<Rightarrow> string list \<Rightarrow> task option \<times> string list" where
  "scan_candidates fs [] pl = (None, pl)"
| "scan_candidates fs (d # ds) pl =
     (if isfile fs (path_join d TASK_JSON) then
        (case read_json fs (path_join d TASK_JSON) of
           Inr v \<Rightarrow> (Some (FileBasedTask (Some d) v), pl)
         | Inl e \<Rightarrow> scan_candidates fs ds (if d \<in> set pl then pl else pl @ [d]))
      else scan_candidates fs ds pl)"

text \<open>The record the cleanup writes, and the operations a cleanup pass over the problem
  list \<open>pl\<close> may log: that record written to the record file of a listed directory, or
  a listed directory moved to its place under done.\<close>

definition only_error :: pyval where
  "only_error = PyDict [(ERROR_PARAM, PyStr ''Unknown error with task'')]"

definition cleanup_op :: "string list \<Rightarrow> fsop \<Rightarrow> bool" where
  "cleanup_op pl op =
     (case op of
        OpWrite p c \<Rightarrow> c = JsonText only_error \<and> p \<in> set (map (\<lambda>e. path_join e TASK_JSON) pl)
      | OpMove src dst \<Rightarrow> src \<in> set pl \<and> dst = relocated src DONE_STATUS)"

text \<open>The directory of a submitted task under the task root \<open>td\<close>, as the scan of
  \<^verbatim>\<open>get_next_task\<close> builds it from two directory listings.\<close>

definition submitted_entry :: "string \<Rightarrow> string \<Rightarrow> bool" where
  "submitted_entry td p =
     (is_name (basename (dirname p)) \<and> is_name (basename p)
      \<and> p = task_path td SUBMITTED_STATUS (basename (dirname p)) (basename p))"

text \<open>What holds of the factory throughout a run on the task root \<open>td\<close>: its submitted
  directory is the one under \<open>td\<close>, and the problem list holds directories of submitted
  tasks only.\<close>

definition factory_inv :: "string \<Rightarrow> factory \<Rightarrow> bool" where
  "factory_inv td f =
     (submitdir f = Some (path_join td SUBMITTED_STATUS)
      \<and> list_all (submitted_entry td) (problemlist f))"

subsection \<open>Example inputs\<close>

text \<open>The network of the spec's scenarios: edges G1-G2 and G2-G3.\<close>

definition example_graph :: graph where
  "example_graph = Graph [''G1'', ''G2'', ''G3''] [(''G1'', ''G2''), (''G2'', ''G3'')]"

text \<open>A task under processing with the given seed string, its network already loaded.\<close>

definition example_task :: "string \<Rightarrow> task" where
  "example_task seeds =
     (FileBasedTask (Some ''b/processing/10.0.0.1/abc'')
        (PyDict [(''alpha'', PyNum ''0.1''), (''seeds'', PyStr seeds)]))
       \<lparr>networkx_obj := Some example_graph\<rparr>"

text \<open>The tree around that task: its directory with the record and the inline network.\<close>

definition example_fs :: filesystem where
  "example_fs =
     \<lparr>dirs = [''b'', ''b/processing'', ''b/processing/10.0.0.1'', ''b/processing/10.0.0.1/abc''],
      files = [(''b/processing/10.0.0.1/abc/task.json'',
                JsonText (PyDict [(''alpha'', PyNum ''0.1''), (''seeds'', PyStr ''X1,X2'')])),
               (''b/processing/10.0.0.1/abc/network.dat'', RawText ''G1 G2 1; G2 G3 1'')],
      oplog = []\<rparr>"

text \<open>Collaborators that succeed: the inline network parses to the example graph, and
  the diffusion returns a score for each of its genes.\<close>

definition example_collaborators :: collaborators where
  "example_collaborators =
     \<lparr>sif_to_graph = (\<lambda>content. Inr example_graph),
      ndex_to_graph = (\<lambda>server ndex_id. Inl (CollaboratorError ''network not found'')),
      nbgwas_convert_to_heat = (\<lambda>gls g. None),
      nbgwas_diffuse = (\<lambda>gls g alpha.
         Inr (PyDict [(''G1'', PyNum ''0.0''), (''G2'', PyNum ''0.0''), (''G3'', PyNum ''0.0'')]))\<rparr>"

text \<open>The runner as \<^verbatim>\<open>main\<close> starts it on the task root \<^verbatim>\<open>b\<close>.\<close>

definition start :: "filesystem \<Rightarrow> runner_state" where
  "start fs = \<lparr>taskfactory = FileBasedSubmittedTaskFactory ''b'', cleanupcounter = 0, fsys = fs\<rparr>"

text \<open>The spec's seed mismatch scenario: one submitted task with seeds X1 and X2, which
  are no nodes of its inline network.\<close>

definition mismatch_fs :: filesystem where
  "mismatch_fs =
     \<lparr>dirs = [''b'', ''b/submitted'', ''b/submitted/10.0.0.1'', ''b/submitted/10.0.0.1/abc''],
      files = [(''b/submitted/10.0.0.1/abc/task.json'',
                JsonText (PyDict [(''alpha'', PyNum ''0.1''), (''seeds'', PyStr ''X1,X2'')])),
               (''b/submitted/10.0.0.1/abc/network.dat'', RawText ''G1 G2 1; G2 G3 1'')],
      oplog = []\<rparr>"

text \<open>Two submitted tasks whose record files do not parse.\<close>

definition corrupt_fs :: filesystem where
  "corrupt_fs =
     \<lparr>dirs = [''b'', ''b/submitted'', ''b/submitted/10.0.0.1'', ''b/submitted/10.0.0.1/abc'',
              ''b/submitted/10.0.0.1/xyz''],
      files = [(''b/submitted/10.0.0.1/abc/task.json'', RawText ''{''),
               (''b/submitted/10.0.0.1/xyz/task.json'', RawText ''{'')],
      oplog = []\<rparr>"

text \<open>One submitted task whose record file holds the JSON list \<^verbatim>\<open>[]\<close>, and no network.\<close>

definition list_record_fs :: filesystem where
  "list_record_fs =
     \<lparr>dirs = [''b'', ''b/submitted'', ''b/submitted/10.0.0.1'', ''b/submitted/10.0.0.1/abc''],
      files = [(''b/submitted/10.0.0.1/abc/task.json'', JsonText (PyList []))],
      oplog = []\<rparr>"

text \<open>Three submitted task directories, in listing order: one without a record file, one
  whose record file does not parse, one with a good record.\<close>

definition mixed_fs :: filesystem where
  "mixed_fs =
     \<lparr>dirs = [''b'', ''b/submitted'', ''b/submitted/10.0.0.1'', ''b/submitted/10.0.0.1/nofile'',
              ''b/submitted/10.0.0.1/broken'', ''b/submitted/10.0.0.1/good''],
      files = [(''b/submitted/10.0.0.1/broken/task.json'', RawText ''{''),
               (''b/submitted/10.0.0.1/good/task.json'',
                JsonText (PyDict [(''alpha'', PyNum ''0.1''), (''seeds'', PyStr ''G1'')]))],
      oplog = []\<rparr>"

text \<open>One submitted task directory, without a record file.\<close>

definition missing_fs :: filesystem where
  "missing_fs =
     \<lparr>dirs = [''b'', ''b/submitted'', ''b/submitted/10.0.0.1'', ''b/submitted/10.0.0.1/abc''],
      files = [], oplog = []\<rparr>"

text \<open>The tree around the example task when a directory with the same client address and
  uuid, holding a record of its own, is already under done.\<close>

definition occupied_fs :: filesystem where
  "occupied_fs =
     \<lparr>dirs = [''b'', ''b/processing'', ''b/processing/10.0.0.1'', ''b/processing/10.0.0.1/abc'',
              ''b/done'', ''b/done/10.0.0.1'', ''b/done/10.0.0.1/abc''],
      files = [(''b/processing/10.0.0.1/abc/task.json'',
                JsonText (PyDict [(''alpha'', PyNum ''0.1''), (''seeds'', PyStr ''X1,X2'')])),
               (''b/done/10.0.0.1/abc/task.json'',
                JsonText (PyDict [(''alpha'', PyNum ''0.5''), (''seeds'', PyStr ''G1'')]))],
      oplog = []\<rparr>"

section \<open>Properties\<close>

subsection \<open>Paths\<close>

lemma path_split_eq:
  assumes "slash_free n" and "h = [] \<or> last h = CHR ''/''"
  shows "path_split (h @ n) = (h, n)"
proof (cases "h = []")
  case True
  have tw: "takeWhile (\<lambda>c. c \<noteq> CHR ''/'') (rev n) = rev n"
    using assms(1) by (auto simp: slash_free_def)
  have dw: "dropWhile (\<lambda>c. c \<noteq> CHR ''/'') (rev n) = []"
    using assms(1) by (auto simp: slash_free_def)
  show ?thesis
    unfolding path_split_def True append_Nil tw dw by simp
next
  case False
  with assms(2) obtain h' where h: "h = h' @ ''/''"
    by (metis append_butlast_last_id)
  have t: "takeWhile (\<lambda>c. c \<noteq> CHR ''/'') (rev n @ CHR ''/'' # rev h') = rev n"
    using assms(1) by (auto simp: slash_free_def takeWhile_tail)
  have d: "dropWhile (\<lambda>c. c \<noteq> CHR ''/'') (rev n @ CHR ''/'' # rev h') = CHR ''/'' # rev h'"
    using assms(1) by (auto simp: slash_free_def dropWhile_append)
  show ?thesis
    using t d by (simp add: path_split_def h)
qed

lemma path_join_name:
  "slash_free n \<Longrightarrow>
   path_join a n = (if a = [] \<or> last a = CHR ''/'' then a @ n else a @ ''/'' @ n)"
  by (cases n) (auto simp: slash_free_def path_join_def)

lemma basename_slash_free: "slash_free (basename p)"
  by (auto simp: basename_def path_split_def slash_free_def dest: set_takeWhileD)

lemma basename_join:
  assumes "slash_free n"
  shows "basename (path_join a n) = n"
proof -
  show ?thesis
  proof (cases "a = [] \<or> last a = CHR ''/''")
    case True
    then show ?thesis
      using path_split_eq [OF assms, of a] by (simp add: path_join_name [OF assms] basename_def)
  next
    case False
    have "path_split ((a @ ''/'') @ n) = (a @ ''/'', n)"
      by (rule path_split_eq [OF assms]) simp
    then show ?thesis
      using False by (simp add: path_join_name [OF assms] basename_def)
  qed
qed

lemma rstrip_sep_snoc:
  "a \<noteq> [] \<Longrightarrow> last a \<noteq> CHR ''/'' \<Longrightarrow> rstrip_sep (a @ ''/'') = a"
  by (cases a rule: rev_cases) (simp_all add: rstrip_sep_def)

lemma dirname_join:
  assumes "slash_free n" and "normal a"
  shows "dirname (path_join a n) = a"
proof -
  show ?thesis
  proof (cases "a = [] \<or> last a = CHR ''/''")
    case True
    then have sp: "path_split (a @ n) = (a, n)"
      using path_split_eq [OF assms(1), of a] by simp
    from True assms(2) have "a = [] \<or> a = replicate (length a) (CHR ''/'')"
      by (auto simp: normal_def)
    then show ?thesis
      using True sp by (auto simp: path_join_name [OF assms(1)] dirname_def Let_def)
  next
    case False
    have sp: "path_split ((a @ ''/'') @ n) = (a @ ''/'', n)"
      by (rule path_split_eq [OF assms(1)]) simp
    have ne: "a @ ''/'' \<noteq> replicate (length (a @ ''/'')) (CHR ''/'')"
    proof
      assume "a @ ''/'' = replicate (length (a @ ''/'')) (CHR ''/'')"
      then have "set (a @ ''/'') \<subseteq> {CHR ''/''}"
        by (metis set_replicate_conv_if subset_insertI empty_subsetI subset_refl)
      with False show False
        by (metis last_in_set Un_iff set_append singletonD subsetD)
    qed
    show ?thesis
      using False sp ne rstrip_sep_snoc [of a]
      by (simp add: path_join_name [OF assms(1)] dirname_def Let_def)
  qed
qed

lemma join_name_last:
  assumes "slash_free n" and "n \<noteq> []"
  shows "path_join a n \<noteq> [] \<and> last (path_join a n) \<noteq> CHR ''/''"
proof -
  have "last n \<noteq> CHR ''/''"
    using assms by (metis last_in_set slash_free_def)
  then show ?thesis
    using assms by (auto simp: path_join_def)
qed

lemma join_name_normal: "slash_free n \<Longrightarrow> n \<noteq> [] \<Longrightarrow> normal (path_join a n)"
  using join_name_last [of n a] by (simp add: normal_def)

lemma dirname_normal: "normal (dirname p)"
proof -
  define h where "h = fst (path_split p)"
  show ?thesis
  proof (cases "h \<noteq> [] \<and> h \<noteq> replicate (length h) (CHR ''/'')")
    case False
    then show ?thesis
      by (auto simp: dirname_def Let_def h_def [symmetric] normal_def)
  next
    case True
    then have "\<exists>c \<in> set h. c \<noteq> CHR ''/''"
      by (metis replicate_eqI)
    then have "\<exists>c \<in> set (rev h). \<not> (c = CHR ''/'')"
      by simp
    then have ne: "dropWhile (\<lambda>c. c = CHR ''/'') (rev h) \<noteq> []"
      by (simp del: set_rev)
    then have "hd (dropWhile (\<lambda>c. c = CHR ''/'') (rev h)) \<noteq> CHR ''/''"
      using hd_dropWhile by blast
    then have "last (rstrip_sep h) \<noteq> CHR ''/''"
      using ne by (simp add: rstrip_sep_def last_rev)
    then show ?thesis
      using True by (simp add: dirname_def Let_def h_def [symmetric] normal_def)
  qed
qed

lemma is_nameD: "is_name n \<Longrightarrow> slash_free n \<and> n \<noteq> []"
  by (simp add: is_name_def)

lemma parse_task_path:
  assumes "normal b" "is_name st" "is_name ip" "is_name u"
    and "taskdir t = Some (task_path b st ip u)"
  shows "get_uuid_ip_state_basedir_from_path t
         = \<lparr>basedir = Some b, state = Some st, ipaddr = Some ip, uuid = Some u\<rparr>"
proof -
  let ?x = "path_join b st"
  let ?y = "path_join ?x ip"
  have n1: "normal ?x" using assms(2) by (simp add: is_name_def join_name_normal)
  have n2: "normal ?y" using assms(3) by (simp add: is_name_def join_name_normal)
  have u: "basename (path_join ?y u) = u"
    using assms(4) by (simp add: is_name_def basename_join)
  have d1: "dirname (path_join ?y u) = ?y"
    using assms(4) n2 by (simp add: is_name_def dirname_join)
  have i: "basename ?y = ip"
    using assms(3) by (simp add: is_name_def basename_join)
  have d2: "dirname ?y = ?x"
    using assms(3) n1 by (simp add: is_name_def dirname_join)
  have s: "basename ?x = st"
    using assms(2) by (simp add: is_name_def basename_join)
  have d3: "dirname ?x = b"
    using assms(1,2) by (simp add: is_name_def dirname_join)
  show ?thesis
    using assms(5) u d1 i d2 s d3
    by (simp add: get_uuid_ip_state_basedir_from_path_def task_path_def Let_def)
qed

lemma state_of_task_path:
  assumes "normal b" "is_name st" "is_name ip" "is_name u"
  shows "state_of_path (task_path b st ip u) = st"
proof -
  have "get_uuid_ip_state_basedir_from_path (FileBasedTask (Some (task_path b st ip u)) PyNone)
         = \<lparr>basedir = Some b, state = Some st, ipaddr = Some ip, uuid = Some u\<rparr>"
    by (rule parse_task_path [OF assms]) (simp add: FileBasedTask_def)
  then show ?thesis
    by (simp add: get_uuid_ip_state_basedir_from_path_def FileBasedTask_def Let_def
        state_of_path_def)
qed

lemma relocated_task_path:
  assumes "normal b" "is_name st" "is_name ip" "is_name u"
  shows "relocated (task_path b st ip u) ns = task_path b ns ip u"
proof -
  have "get_uuid_ip_state_basedir_from_path (FileBasedTask (Some (task_path b st ip u)) PyNone)
         = \<lparr>basedir = Some b, state = Some st, ipaddr = Some ip, uuid = Some u\<rparr>"
    by (rule parse_task_path [OF assms]) (simp add: FileBasedTask_def)
  then show ?thesis
    by (simp add: get_uuid_ip_state_basedir_from_path_def FileBasedTask_def Let_def
        relocated_def)
qed

lemma status_names:
  "is_name SUBMITTED_STATUS" "is_name PROCESSING_STATUS" "is_name DONE_STATUS"
  by (simp_all add: is_name_def slash_free_def SUBMITTED_STATUS_def PROCESSING_STATUS_def
      DONE_STATUS_def)

lemma status_ranks:
  "state_rank SUBMITTED_STATUS = Some 0" "state_rank PROCESSING_STATUS = Some 1"
  "state_rank DONE_STATUS = Some 2"
  by (simp_all add: state_rank_def SUBMITTED_STATUS_def PROCESSING_STATUS_def DONE_STATUS_def)

lemma status_distinct:
  "SUBMITTED_STATUS \<noteq> PROCESSING_STATUS" "SUBMITTED_STATUS \<noteq> DONE_STATUS"
  "SUBMITTED_STATUS \<noteq> ERROR_STATUS" "PROCESSING_STATUS \<noteq> DONE_STATUS"
  "PROCESSING_STATUS \<noteq> ERROR_STATUS" "DONE_STATUS \<noteq> ERROR_STATUS"
  by (simp_all add: SUBMITTED_STATUS_def PROCESSING_STATUS_def DONE_STATUS_def ERROR_STATUS_def)

lemma listdir_is_name: "n \<in> set (listdir fs d) \<Longrightarrow> is_name n"
  by (auto simp: listdir_def is_name_def basename_slash_free)

text \<open>A task path spelled out, and two task paths that differ in the state: neither is
  a prefix of the other.\<close>

lemma task_path_app:
  assumes "is_name st" "is_name c" "is_name u"
  shows "task_path b st c u
         = (if b = [] \<or> last b = CHR ''/'' then b else b @ ''/'') @ st @ ''/'' @ c @ ''/'' @ u"
proof -
  define x where "x = path_join b st"
  define y where "y = path_join x c"
  have s: "slash_free st" "slash_free c" "slash_free u"
    using assms by (simp_all add: is_name_def)
  have 1: "x = (if b = [] \<or> last b = CHR ''/'' then b else b @ ''/'') @ st"
    unfolding x_def by (simp add: path_join_name [OF s(1)])
  have l1: "x \<noteq> [] \<and> last x \<noteq> CHR ''/''"
    unfolding x_def using assms(1) by (simp add: is_name_def join_name_last)
  then have 2: "y = x @ ''/'' @ c"
    unfolding y_def by (simp add: path_join_name [OF s(2)])
  have l2: "y \<noteq> [] \<and> last y \<noteq> CHR ''/''"
    unfolding y_def using assms(2) by (simp add: is_name_def join_name_last)
  then have 3: "path_join y u = y @ ''/'' @ u"
    by (simp add: path_join_name [OF s(3)])
  have "task_path b st c u = path_join y u"
    by (simp add: task_path_def y_def x_def)
  then show ?thesis
    unfolding 3 unfolding 2 unfolding 1 by simp
qed

lemma first_component:
  assumes "slash_free a" "slash_free b" and "a @ CHR ''/'' # x = b @ CHR ''/'' # y"
  shows "a = b"
proof -
  have "takeWhile (\<lambda>c. c \<noteq> CHR ''/'') (a @ CHR ''/'' # x) = a"
    using assms(1) by (auto simp: slash_free_def takeWhile_tail)
  moreover have "takeWhile (\<lambda>c. c \<noteq> CHR ''/'') (b @ CHR ''/'' # y) = b"
    using assms(2) by (auto simp: slash_free_def takeWhile_tail)
  ultimately show ?thesis
    using assms(3) by metis
qed

lemma task_path_apart:
  assumes "is_name st" "is_name st'" "is_name c" "is_name u" "st \<noteq> st'"
  shows "task_path b st c u @ s \<noteq> task_path b st' c u @ s'"
proof
  assume "task_path b st c u @ s = task_path b st' c u @ s'"
  then have "st @ CHR ''/'' # (c @ ''/'' @ u @ s) = st' @ CHR ''/'' # (c @ ''/'' @ u @ s')"
    unfolding task_path_app [OF assms(1,3,4)] task_path_app [OF assms(2,3,4)] by simp
  moreover have "slash_free st" "slash_free st'"
    using assms(1,2) by (simp_all add: is_name_def)
  ultimately have "st = st'"
    using first_component by blast
  then show False
    using assms(5) by simp
qed

lemma task_path_last:
  assumes "is_name u"
  shows "task_path b st c u \<noteq> [] \<and> last (task_path b st c u) \<noteq> CHR ''/''"
  unfolding task_path_def using assms by (simp add: is_name_def join_name_last)

lemma record_path:
  assumes "d \<noteq> [] \<and> last d \<noteq> CHR ''/''" and "slash_free n"
  shows "path_join d n = d @ ''/'' @ n"
  using assms by (simp add: path_join_name)

lemma file_names:
  "slash_free TASK_JSON" "slash_free RESULT" "TASK_JSON \<noteq> RESULT"
  by (simp_all add: slash_free_def TASK_JSON_def RESULT_def)

text \<open>A path under a directory extends it, and a path extends each of its ancestors.\<close>

lemma under_app: "under d p \<Longrightarrow> \<exists>s. p = d @ s"
proof -
  assume "under d p"
  then consider "p = d" | "take (Suc (length d)) p = d @ ''/''"
    by (auto simp: under_def)
  then show ?thesis
  proof cases
    case 1
    then show ?thesis by simp
  next
    case 2
    have "p = take (Suc (length d)) p @ drop (Suc (length d)) p"
      by simp
    then have "p = d @ (''/'' @ drop (Suc (length d)) p)"
      unfolding 2 by simp
    then show ?thesis ..
  qed
qed

lemma dirname_prefix: "\<exists>s. p = dirname p @ s"
proof -
  define h where "h = fst (path_split p)"
  have "rev p = takeWhile (\<lambda>c. c \<noteq> CHR ''/'') (rev p) @ dropWhile (\<lambda>c. c \<noteq> CHR ''/'') (rev p)"
    by simp
  then have "p = h @ rev (takeWhile (\<lambda>c. c \<noteq> CHR ''/'') (rev p))"
    unfolding h_def path_split_def fst_conv by (metis rev_append rev_rev_ident)
  then obtain s1 where p: "p = h @ s1" ..
  have "rev h = takeWhile (\<lambda>c. c = CHR ''/'') (rev h) @ dropWhile (\<lambda>c. c = CHR ''/'') (rev h)"
    by simp
  then have "h = rstrip_sep h @ rev (takeWhile (\<lambda>c. c = CHR ''/'') (rev h))"
    unfolding rstrip_sep_def by (metis rev_append rev_rev_ident)
  then obtain s2 where h: "h = rstrip_sep h @ s2" ..
  have "dirname p = h \<or> dirname p = rstrip_sep h"
    by (simp add: dirname_def Let_def h_def)
  then show ?thesis
  proof
    assume "dirname p = h"
    with p show ?thesis by metis
  next
    assume "dirname p = rstrip_sep h"
    with p h have "p = dirname p @ (s2 @ s1)"
      by (metis append_assoc)
    then show ?thesis ..
  qed
qed

lemma ancestors_upto_prefix: "a \<in> set (ancestors_upto n p) \<Longrightarrow> \<exists>s. p = a @ s"
proof (induction n arbitrary: p)
  case 0
  then show ?case by simp
next
  case (Suc n)
  obtain s0 where p: "p = dirname p @ s0"
    using dirname_prefix by blast
  from Suc.prems have "a = dirname p \<or> a \<in> set (ancestors_upto n (dirname p))"
    by (auto simp: Let_def split: if_splits)
  then show ?case
  proof
    assume "a = dirname p"
    with p show ?thesis by metis
  next
    assume "a \<in> set (ancestors_upto n (dirname p))"
    from Suc.IH [OF this] obtain s where "dirname p = a @ s" ..
    with p have "p = a @ (s @ s0)"
      by (metis append_assoc)
    then show ?thesis ..
  qed
qed

subsection \<open>The log of filesystem operations\<close>

lemma forward_since_iff:
  "forward_since fs fs' \<longleftrightarrow> (\<exists>new. oplog fs' = oplog fs @ new \<and> list_all forward_move new)"
proof
  assume "forward_since fs fs'"
  then have "oplog fs' = oplog fs @ drop (length (oplog fs)) (oplog fs')
             \<and> list_all forward_move (drop (length (oplog fs)) (oplog fs'))"
    by (metis append_take_drop_id forward_since_def)
  then show "\<exists>new. oplog fs' = oplog fs @ new \<and> list_all forward_move new"
    by blast
next
  assume "\<exists>new. oplog fs' = oplog fs @ new \<and> list_all forward_move new"
  then show "forward_since fs fs'"
    by (auto simp: forward_since_def)
qed

lemma forward_since_refl: "forward_since fs fs"
  by (simp add: forward_since_def)

lemma forward_since_trans:
  "forward_since fs1 fs2 \<Longrightarrow> forward_since fs2 fs3 \<Longrightarrow> forward_since fs1 fs3"
  by (auto simp: forward_since_iff)

lemma forward_since_step:
  "oplog fs' = oplog fs @ new \<Longrightarrow> list_all forward_move new \<Longrightarrow> forward_since fs fs'"
  by (auto simp: forward_since_iff)

lemma write_json_oplog:
  "write_json p v fs = Inr fs' \<Longrightarrow> oplog fs' = oplog fs @ [OpWrite p (JsonText v)]"
  by (auto simp: write_json_def split: if_splits)

lemma do_move_oplog: "do_move src dst rd fs = Inr fs' \<Longrightarrow> oplog fs' = oplog fs"
  by (auto simp: do_move_def rename_tree_def split: if_splits option.splits)

lemma shutil_move_oplog:
  "shutil_move src dst fs = Inr fs' \<Longrightarrow> oplog fs' = oplog fs @ [OpMove src dst]"
  by (auto simp: shutil_move_def Let_def split: if_splits sum.splits dest: do_move_oplog)

lemma write_json_dirs: "write_json p v fs = Inr fs' \<Longrightarrow> dirs fs' = dirs fs"
  by (auto simp: write_json_def split: if_splits)

lemma save_task_cases:
  assumes "taskdir t = Some d" and "save_task t fs = (r, fs')"
  shows "(\<exists>e. r = Inl e \<and> fs' = fs)
       \<or> (r = Inr None \<and> resultdata t = PyNone
            \<and> oplog fs' = oplog fs @ [OpWrite (path_join d TASK_JSON) (JsonText (taskdict t))])
       \<or> (\<exists>e. r = Inl e \<and> resultdata t \<noteq> PyNone
            \<and> oplog fs' = oplog fs @ [OpWrite (path_join d TASK_JSON) (JsonText (taskdict t))])
       \<or> (r = Inr None \<and> resultdata t \<noteq> PyNone
            \<and> oplog fs' = oplog fs @ [OpWrite (path_join d TASK_JSON) (JsonText (taskdict t)),
                                      OpWrite (path_join d RESULT) (JsonText (resultdata t))])"
  using assms
  by (auto simp: save_task_def split: sum.splits if_splits dest!: write_json_oplog)

lemma save_task_dirs: "save_task t fs = (r, fs') \<Longrightarrow> dirs fs' = dirs fs"
  by (auto simp: save_task_def split: option.splits sum.splits if_splits dest!: write_json_dirs)

lemma save_task_forward: "save_task t fs = (r, fs') \<Longrightarrow> forward_since fs fs'"
  by (auto simp: save_task_def forward_since_iff forward_move_def
      split: option.splits sum.splits if_splits dest!: write_json_oplog)

lemma shutil_move_forward:
  assumes "shutil_move src dst fs = Inr fs'" and "forward_move (OpMove src dst)"
  shows "forward_since fs fs'"
  using shutil_move_oplog [OF assms(1)] assms(2) by (simp add: forward_since_iff)

lemma forward_task_move:
  assumes "normal b" "is_name ip" "is_name u" "is_name st" "is_name ns"
    and "state_rank st = Some k" "state_rank ns = Some k'" "k < k'"
  shows "forward_move (OpMove (task_path b st ip u) (task_path b ns ip u))"
  using assms by (simp add: forward_move_def state_of_task_path)

subsection \<open>The tree after a save and a move\<close>

lemma rebase_entry:
  "rebase d dst (d @ ''/'' @ n) = dst @ ''/'' @ n"
  by (simp add: rebase_def under_def)

text \<open>After a directory is renamed to a path that is apart from it, nothing is left at or
  under the old path.\<close>

lemma rename_tree_vacates:
  assumes apart: "\<And>s s'. d @ s \<noteq> dst @ s'" and u: "under d p"
  shows "\<not> lexists (rename_tree d dst fs) p"
proof -
  obtain s where p: "p = d @ s"
    using under_app [OF u] ..
  have rb: "rebase d dst q \<noteq> p" for q
  proof (cases "under d q")
    case True
    then show ?thesis
      using apart [of s "drop (length d) q"] by (simp add: rebase_def p)
  next
    case False
    then show ?thesis
      using u by (auto simp: rebase_def)
  qed
  have anc: "p \<notin> set (ancestors dst)"
  proof
    assume "p \<in> set (ancestors dst)"
    then obtain s' where "dst = p @ s'"
      unfolding ancestors_def using ancestors_upto_prefix by blast
    then have "d @ (s @ s') = dst @ []"
      by (simp add: p)
    then show False
      using apart by blast
  qed
  show ?thesis
    using rb anc by (auto simp: lexists_def isdir_def isfile_def rename_tree_def)
qed

text \<open>A save that returns has written the record, and the result when one is attached,
  in front of the other files of the tree.\<close>

lemma save_task_files:
  assumes d: "taskdir t = Some d" and dl: "d \<noteq> [] \<and> last d \<noteq> CHR ''/''"
    and sv: "save_task t fs = (Inr x, fs1)"
  shows "isdir fs d \<and> dirs fs1 = dirs fs
       \<and> files fs1 =
           (if resultdata t = PyNone then []
            else [(d @ ''/'' @ RESULT, JsonText (resultdata t))])
           @ (d @ ''/'' @ TASK_JSON, JsonText (taskdict t))
           # filter (\<lambda>e. fst e \<noteq> d @ ''/'' @ TASK_JSON
                        \<and> (resultdata t = PyNone \<or> fst e \<noteq> d @ ''/'' @ RESULT)) (files fs)"
proof -
  have nd: "normal d"
    using dl by (simp add: normal_def)
  have tj: "path_join d TASK_JSON = d @ ''/'' @ TASK_JSON"
    by (rule record_path [OF dl file_names(1)])
  have rj: "path_join d RESULT = d @ ''/'' @ RESULT"
    by (rule record_path [OF dl file_names(2)])
  have dt: "dirname (d @ ''/'' @ TASK_JSON) = d"
    using dirname_join [OF file_names(1) nd] tj by simp
  have ne: "d @ ''/'' @ TASK_JSON \<noteq> d @ ''/'' @ RESULT"
    using file_names(3) by simp
  from sv d have sv': "(case write_json (path_join d TASK_JSON) (taskdict t) fs of
               Inl e \<Rightarrow> (Inl e, fs)
             | Inr fs0 \<Rightarrow>
                 if resultdata t \<noteq> PyNone then
                   (case write_json (path_join d RESULT) (resultdata t) fs0 of
                      Inl e \<Rightarrow> (Inl e, fs0)
                    | Inr fs2 \<Rightarrow> (Inr None, fs2))
                 else (Inr None, fs0)) = (Inr x, fs1)"
    by (simp add: save_task_def)
  then obtain fs0 where w1': "write_json (path_join d TASK_JSON) (taskdict t) fs = Inr fs0"
    and rest': "(if resultdata t \<noteq> PyNone then
                  (case write_json (path_join d RESULT) (resultdata t) fs0 of
                     Inl e \<Rightarrow> (Inl e, fs0)
                   | Inr fs2 \<Rightarrow> (Inr None, fs2))
                else (Inr None, fs0)) = (Inr x, fs1)"
    by (cases "write_json (path_join d TASK_JSON) (taskdict t) fs") simp_all
  note w1 = w1' [unfolded tj]
  note rest = rest' [unfolded rj]
  have dir: "isdir fs d"
    using w1 dt by (auto simp: write_json_def split: if_splits)
  have f0: "files fs0 = (d @ ''/'' @ TASK_JSON, JsonText (taskdict t))
                         # filter (\<lambda>e. fst e \<noteq> d @ ''/'' @ TASK_JSON) (files fs)"
    and d0: "dirs fs0 = dirs fs"
    using w1 by (auto simp: write_json_def split: if_splits)
  show ?thesis
  proof (cases "resultdata t = PyNone")
    case True
    then have "fs1 = fs0"
      using rest by simp
    then show ?thesis
      using True dir f0 d0 by simp
  next
    case False
    then have w2: "write_json (d @ ''/'' @ RESULT) (resultdata t) fs0 = Inr fs1"
      using rest by (auto split: sum.splits)
    have f1: "files fs1 = (d @ ''/'' @ RESULT, JsonText (resultdata t))
                          # filter (\<lambda>e. fst e \<noteq> d @ ''/'' @ RESULT) (files fs0)"
      and d1: "dirs fs1 = dirs fs0"
      using w2 by (auto simp: write_json_def split: if_splits)
    show ?thesis
      using False dir d0 d1 ne unfolding f1 f0 by simp
  qed
qed

text \<open>A move of a directory to a path that is no directory renames it.\<close>

lemma shutil_move_fresh:
  assumes "isdir fs d" "\<not> isdir fs dst" and "shutil_move d dst fs = Inr fs'"
  shows "dirs fs' = dirs (rename_tree d dst fs) \<and> files fs' = files (rename_tree d dst fs)"
proof -
  obtain fs0 where m: "do_move d dst dst fs = Inr fs0"
    and fs': "fs' = fs0\<lparr>oplog := oplog fs0 @ [OpMove d dst]\<rparr>"
    using assms(2,3) by (cases "do_move d dst dst fs") (simp_all add: shutil_move_def)
  have "fs0 = rename_tree d dst fs"
    using m assms(1) by (simp add: do_move_def split: if_splits)
  then show ?thesis
    using fs' by simp
qed

text \<open>A task saved and then moved to its place under done, when no directory was there:
  the directory is there afterwards with the saved record (and result) in it, and nothing
  is left where it was.\<close>

lemma relocation_on_disk:
  assumes names: "is_name st" "is_name client" "is_name u"
    and d: "taskdir t1 = Some (task_path base st client u)"
    and sv: "save_task t1 fs = (Inr x, fs1)"
    and mv: "shutil_move (task_path base st client u) (task_path base DONE_STATUS client u) fs1
             = Inr fs2"
    and fresh: "\<not> isdir fs (task_path base DONE_STATUS client u)"
  shows "isdir fs2 (task_path base DONE_STATUS client u)
       \<and> (\<forall>p. under (task_path base st client u) p \<longrightarrow> \<not> lexists fs2 p)
       \<and> read_json fs2 (path_join (task_path base DONE_STATUS client u) TASK_JSON)
           = Inr (taskdict t1)
       \<and> (resultdata t1 \<noteq> PyNone \<longrightarrow>
            read_json fs2 (path_join (task_path base DONE_STATUS client u) RESULT)
              = Inr (resultdata t1))"
proof -
  define src where "src = task_path base st client u"
  define dst where "dst = task_path base DONE_STATUS client u"
  have sl: "src \<noteq> [] \<and> last src \<noteq> CHR ''/''"
    unfolding src_def by (rule task_path_last [OF names(3)])
  have dl: "dst \<noteq> [] \<and> last dst \<noteq> CHR ''/''"
    unfolding dst_def by (rule task_path_last [OF names(3)])
  note saved = save_task_files [OF d [folded src_def] sl sv]
  have dir: "isdir fs src" and dirs1: "dirs fs1 = dirs fs"
    using saved by simp_all
  have files1: "files fs1 =
           (if resultdata t1 = PyNone then []
            else [(src @ ''/'' @ RESULT, JsonText (resultdata t1))])
           @ (src @ ''/'' @ TASK_JSON, JsonText (taskdict t1))
           # filter (\<lambda>e. fst e \<noteq> src @ ''/'' @ TASK_JSON
                        \<and> (resultdata t1 = PyNone \<or> fst e \<noteq> src @ ''/'' @ RESULT)) (files fs)"
    using saved by simp
  have dir1: "isdir fs1 src" and fresh1: "\<not> isdir fs1 dst"
    using dir fresh dirs1 by (simp_all add: isdir_def dst_def)
  have moved: "dirs fs2 = dirs (rename_tree src dst fs1)"
              "files fs2 = files (rename_tree src dst fs1)"
    using shutil_move_fresh [OF dir1 fresh1 mv [folded src_def dst_def]] by simp_all
  have "src \<noteq> dst"
    using dir1 fresh1 by auto
  then have neq: "st \<noteq> DONE_STATUS"
    by (auto simp: src_def dst_def)
  have apart: "src @ s \<noteq> dst @ s'" for s s'
    unfolding src_def dst_def
    by (rule task_path_apart [OF names(1) status_names(3) names(2,3) neq])
  have there: "isdir fs2 dst"
  proof -
    have "rebase src dst src = dst"
      by (simp add: rebase_def under_def)
    moreover have "src \<in> set (dirs fs1)"
      using dir1 by (simp add: isdir_def)
    ultimately have "dst \<in> rebase src dst ` set (dirs fs1)"
      by (metis imageI)
    then show ?thesis
      by (simp add: isdir_def moved(1) rename_tree_def)
  qed
  have vacated: "\<not> lexists fs2 p" if "under src p" for p
  proof -
    have "\<not> lexists (rename_tree src dst fs1) p"
      using apart that by (rule rename_tree_vacates)
    then show ?thesis
      by (simp add: lexists_def isdir_def isfile_def moved)
  qed
  have tj: "path_join dst TASK_JSON = dst @ ''/'' @ TASK_JSON"
    by (rule record_path [OF dl file_names(1)])
  have rj: "path_join dst RESULT = dst @ ''/'' @ RESULT"
    by (rule record_path [OF dl file_names(2)])
  have rb: "rebase src dst (src @ CHR ''/'' # n) = dst @ CHR ''/'' # n" for n
    using rebase_entry [of src dst n] by simp
  have rec_ok: "read_json fs2 (dst @ ''/'' @ TASK_JSON) = Inr (taskdict t1)"
    unfolding read_json_def moved(2) rename_tree_def files1
    using file_names(3) by (simp add: rb json_load_def)
  have res_ok: "read_json fs2 (dst @ ''/'' @ RESULT) = Inr (resultdata t1)"
    if "resultdata t1 \<noteq> PyNone"
    unfolding read_json_def moved(2) rename_tree_def files1
    using that by (simp add: rb json_load_def)
  show ?thesis
    using there vacated rec_ok res_ok
    unfolding tj rj src_def [symmetric] dst_def [symmetric] by blast
qed

subsection \<open>Moving a task\<close>

lemma basedir_Some:
  "taskdir t = Some d \<Longrightarrow> basedir (get_uuid_ip_state_basedir_from_path t) \<noteq> None"
  by (simp add: get_uuid_ip_state_basedir_from_path_def Let_def)

lemma get_state_SomeD: "get_state t = Some s \<Longrightarrow> \<exists>d. taskdir t = Some d"
  by (cases "taskdir t") (simp_all add: get_state_def get_uuid_ip_state_basedir_from_path_def)

lemma get_state_path:
  "taskdir t = Some d \<Longrightarrow> state (get_uuid_ip_state_basedir_from_path t) = Some (state_of_path d)"
  by (simp add: get_uuid_ip_state_basedir_from_path_def Let_def state_of_path_def)

text \<open>
  C5. Moving a task to the state its directory path already encodes returns \<^verbatim>\<open>None\<close>
  (success), touches nothing in the filesystem (not even its log of operations), and
  leaves the task, so its directory path and its metadata, as it was.
\<close>

theorem move_task_same_state:
  "get_state t = Some s \<Longrightarrow> move_task s em t fs = (Inr None, t, fs)"
proof -
  assume st: "get_state t = Some s"
  then obtain d where d: "taskdir t = Some d"
    using get_state_SomeD by blast
  have "basedir (get_uuid_ip_state_basedir_from_path t) \<noteq> None"
    using d by (rule basedir_Some)
  moreover have "state (get_uuid_ip_state_basedir_from_path t) = Some s"
    using st by (simp add: get_state_def)
  ultimately show ?thesis
    by (simp add: move_task_def Let_def)
qed

theorem move_task_same_state_witness:
  "get_state (example_task ''G1'') = Some PROCESSING_STATUS
   \<and> move_task PROCESSING_STATUS (Some ''msg'') (example_task ''G1'')
        \<lparr>dirs = [''b'', ''b/processing'', ''b/processing/10.0.0.1'',
                 ''b/processing/10.0.0.1/abc''],
         files = [], oplog = []\<rparr>
     = (Inr None, example_task ''G1'',
        \<lparr>dirs = [''b'', ''b/processing'', ''b/processing/10.0.0.1'',
                 ''b/processing/10.0.0.1/abc''],
         files = [], oplog = []\<rparr>)"
proof -
  have h: "get_state (example_task ''G1'') = Some PROCESSING_STATUS"
    by code_simp
  show ?thesis
    using h move_task_same_state [OF h] by simp
qed

lemma move_task_wf:
  assumes "normal b" "is_name st" "is_name ip" "is_name u"
    and "taskdir t = Some (task_path b st ip u)" and "st \<noteq> ns"
  shows "move_task ns em t fs =
     (if ns = ERROR_STATUS then
        (case setitem (taskdict t) ERROR_PARAM
                (PyStr (case em of None \<Rightarrow> ''Unknown error'' | Some m \<Rightarrow> m)) of
           Inl e \<Rightarrow> (Inl e, t, fs)
         | Inr td \<Rightarrow>
             (case save_task (t\<lparr>taskdict := td\<rparr>) fs of
                (Inl e, fs1) \<Rightarrow> (Inl e, t\<lparr>taskdict := td\<rparr>, fs1)
              | (Inr r, fs1) \<Rightarrow>
                  (case shutil_move (task_path b st ip u) (task_path b DONE_STATUS ip u) fs1 of
                     Inl e \<Rightarrow> (Inl e, t\<lparr>taskdict := td\<rparr>, fs1)
                   | Inr fs2 \<Rightarrow>
                       (Inr None,
                        t\<lparr>taskdict := td, taskdir := Some (task_path b DONE_STATUS ip u)\<rparr>,
                        fs2))))
      else
        (case shutil_move (task_path b st ip u) (task_path b ns ip u) fs of
           Inl e \<Rightarrow> (Inl e, t, fs)
         | Inr fs2 \<Rightarrow> (Inr None, t\<lparr>taskdir := Some (task_path b ns ip u)\<rparr>, fs2)))"
  using assms(5,6) parse_task_path [OF assms(1-5)]
  by (simp add: move_task_def join_taskdir_def Let_def task_path_def
      split: sum.splits prod.splits)

text \<open>
  C4, as stated, fails when \<^verbatim>\<open>done/{client}/{uuid}\<close> is already a directory:
  \<^verbatim>\<open>shutil.move\<close> then moves the task directory into it. Here the example task is moved
  to the ERROR state while \<^verbatim>\<open>b/done/10.0.0.1/abc\<close> exists with a record of its own: the call
  returns \<^verbatim>\<open>None\<close> and the task takes \<^verbatim>\<open>b/done/10.0.0.1/abc\<close> as its path, but its directory
  and the record with the error are at \<^verbatim>\<open>b/done/10.0.0.1/abc/abc\<close>, and the record file at
  \<^verbatim>\<open>b/done/10.0.0.1/abc/task.json\<close> is the one that was there, without an error.
\<close>

theorem move_task_into_occupied_done:
  "taskdir (example_task ''X1,X2'') = Some (task_path ''b'' ''processing'' ''10.0.0.1'' ''abc'')
   \<and> isdir occupied_fs (task_path ''b'' DONE_STATUS ''10.0.0.1'' ''abc'')
   \<and> (case move_task ERROR_STATUS None (example_task ''X1,X2'') occupied_fs of
        (r, t', fs') \<Rightarrow>
          r = Inr None
          \<and> taskdir t' = Some ''b/done/10.0.0.1/abc''
          \<and> isdir fs' ''b/done/10.0.0.1/abc/abc''
          \<and> read_json fs' ''b/done/10.0.0.1/abc/abc/task.json''
              = Inr (PyDict [(''alpha'', PyNum ''0.1''), (''seeds'', PyStr ''X1,X2''),
                             (''error'', PyStr ''Unknown error'')])
          \<and> read_json fs' ''b/done/10.0.0.1/abc/task.json''
              = Inr (PyDict [(''alpha'', PyNum ''0.5''), (''seeds'', PyStr ''G1'')]))"
  by code_simp

text \<open>
  C4, amended. Moving a task at \<^verbatim>\<open>{base}/{st}/{client}/{uuid}\<close> with a dict as metadata to
  the synthetic ERROR state, with any error message argument (\<^verbatim>\<open>None\<close> gives "Unknown
  error"): the message is stored in the metadata under the error key, whether or not the
  filesystem calls succeed. When the call returns, it returns \<^verbatim>\<open>None\<close>, the filesystem log
  has grown by the write of the record (with the error in it) into the old directory,
  the write of the result file if a result is attached, and then one move of the
  directory to \<^verbatim>\<open>{base}/done/{client}/{uuid}\<close>, which is the task's new path; and when
  \<^verbatim>\<open>{base}/done/{client}/{uuid}\<close> was no directory before the call, it is one afterwards,
  its record file holds the metadata with the error, its result file holds the result
  if one is attached, and nothing is left at or under the old path. When a filesystem
  call raises, no directory has changed and the task keeps its path.
  (The error state is synthetic: no directory path carries it, so \<open>st\<close> is not it.)
\<close>

theorem move_task_error_folds_into_done:
  assumes "normal base" "is_name st" "is_name client" "is_name u" "st \<noteq> ERROR_STATUS"
    and "taskdir t = Some (task_path base st client u)"
    and "taskdict t = PyDict kvs"
    and "move_task ERROR_STATUS em t fs = (r, t', fs')"
  shows "taskdict t' = PyDict (AList.update ERROR_PARAM
                         (PyStr (case em of None \<Rightarrow> ''Unknown error'' | Some m \<Rightarrow> m)) kvs)
       \<and> (case r of
            Inr v \<Rightarrow>
              v = None
              \<and> taskdir t' = Some (task_path base DONE_STATUS client u)
              \<and> oplog fs' = oplog fs
                   @ OpWrite (path_join (task_path base st client u) TASK_JSON)
                       (JsonText (taskdict t'))
                   # (if resultdata t = PyNone then []
                      else [OpWrite (path_join (task_path base st client u) RESULT)
                              (JsonText (resultdata t))])
                   @ [OpMove (task_path base st client u) (task_path base DONE_STATUS client u)]
              \<and> (\<not> isdir fs (task_path base DONE_STATUS client u) \<longrightarrow>
                   isdir fs' (task_path base DONE_STATUS client u)
                   \<and> (\<forall>p. under (task_path base st client u) p \<longrightarrow> \<not> lexists fs' p)
                   \<and> read_json fs' (path_join (task_path base DONE_STATUS client u) TASK_JSON)
                       = Inr (taskdict t')
                   \<and> (resultdata t \<noteq> PyNone \<longrightarrow>
                        read_json fs' (path_join (task_path base DONE_STATUS client u) RESULT)
                          = Inr (resultdata t)))
          | Inl e \<Rightarrow> taskdir t' = taskdir t \<and> dirs fs' = dirs fs)"
proof -
  let ?d = "task_path base st client u"
  let ?dst = "task_path base DONE_STATUS client u"
  let ?td = "PyDict (AList.update ERROR_PARAM
                (PyStr (case em of None \<Rightarrow> ''Unknown error'' | Some m \<Rightarrow> m)) kvs)"
  let ?t1 = "t\<lparr>taskdict := ?td\<rparr>"
  obtain rs fs1 where sv: "save_task ?t1 fs = (rs, fs1)"
    by (cases "save_task ?t1 fs")
  have d1: "taskdir ?t1 = Some ?d"
    using assms(6) by simp
  note cases = save_task_cases [OF d1 sv]
  note sdirs = save_task_dirs [OF sv]
  have mv: "move_task ERROR_STATUS em t fs =
     (case rs of
        Inl e \<Rightarrow> (Inl e, ?t1, fs1)
      | Inr x \<Rightarrow>
          (case shutil_move ?d ?dst fs1 of
             Inl e \<Rightarrow> (Inl e, ?t1, fs1)
           | Inr fs2 \<Rightarrow> (Inr None, t\<lparr>taskdict := ?td, taskdir := Some ?dst\<rparr>, fs2)))"
    using assms(7) sv
    by (simp add: move_task_wf [OF assms(1-4) assms(6) assms(5)] setitem_def split: sum.splits)
  show ?thesis
  proof (cases rs)
    case (Inl e)
    then show ?thesis
      using mv assms(8) sdirs by auto
  next
    case (Inr x)
    show ?thesis
    proof (cases "shutil_move ?d ?dst fs1")
      case (Inl e)
      then show ?thesis
        using mv assms(8) sdirs Inr by auto
    next
      case mvd: (Inr fs2)
      have res: "r = Inr None" "t' = t\<lparr>taskdict := ?td, taskdir := Some ?dst\<rparr>" "fs' = fs2"
        using mv assms(8) mvd Inr by simp_all
      note mlog = shutil_move_oplog [OF mvd]
      from cases \<open>rs = Inr x\<close> have log1:
        "oplog fs1 = oplog fs
           @ OpWrite (path_join ?d TASK_JSON) (JsonText ?td)
           # (if resultdata t = PyNone then []
              else [OpWrite (path_join ?d RESULT) (JsonText (resultdata t))])"
        by auto
      have disk: "isdir fs2 ?dst
         \<and> (\<forall>p. under ?d p \<longrightarrow> \<not> lexists fs2 p)
         \<and> read_json fs2 (path_join ?dst TASK_JSON) = Inr ?td
         \<and> (resultdata t \<noteq> PyNone \<longrightarrow>
              read_json fs2 (path_join ?dst RESULT) = Inr (resultdata t))"
        if fresh: "\<not> isdir fs ?dst"
        using relocation_on_disk [OF assms(2-4) d1 sv [unfolded \<open>rs = Inr x\<close>] mvd fresh]
        by simp
      have a: "taskdict t' = ?td"
        by (simp add: res)
      have b: "taskdir t' = Some ?dst"
        by (simp add: res)
      have c: "oplog fs' = oplog fs
                   @ OpWrite (path_join ?d TASK_JSON) (JsonText (taskdict t'))
                   # (if resultdata t = PyNone then []
                      else [OpWrite (path_join ?d RESULT) (JsonText (resultdata t))])
                   @ [OpMove ?d ?dst]"
        unfolding a res(3) mlog log1 by simp
      show ?thesis
        unfolding res(1) sum.case
        using a b c disk unfolding res(3) a by blast
    qed
  qed
qed

theorem move_task_error_folds_into_done_witness:
  "normal ''b'' \<and> is_name ''processing'' \<and> is_name ''10.0.0.1'' \<and> is_name ''abc''
   \<and> ''processing'' \<noteq> ERROR_STATUS
   \<and> taskdir (example_task ''X1,X2'') = Some (task_path ''b'' ''processing'' ''10.0.0.1'' ''abc'')
   \<and> \<not> isdir example_fs (task_path ''b'' DONE_STATUS ''10.0.0.1'' ''abc'')
   \<and> fst (move_task ERROR_STATUS None (example_task ''X1,X2'') example_fs) = Inr None
   \<and> taskdict (fst (snd (move_task ERROR_STATUS None (example_task ''X1,X2'') example_fs)))
       = PyDict [(''alpha'', PyNum ''0.1''), (''seeds'', PyStr ''X1,X2''),
                 (''error'', PyStr ''Unknown error'')]
   \<and> taskdir (fst (snd (move_task ERROR_STATUS None (example_task ''X1,X2'') example_fs)))
       = Some ''b/done/10.0.0.1/abc''
   \<and> oplog (snd (snd (move_task ERROR_STATUS None (example_task ''X1,X2'') example_fs)))
       = [OpWrite ''b/processing/10.0.0.1/abc/task.json''
            (JsonText (PyDict [(''alpha'', PyNum ''0.1''), (''seeds'', PyStr ''X1,X2''),
                               (''error'', PyStr ''Unknown error'')])),
          OpMove ''b/processing/10.0.0.1/abc'' ''b/done/10.0.0.1/abc'']
   \<and> isdir (snd (snd (move_task ERROR_STATUS None (example_task ''X1,X2'') example_fs)))
       ''b/done/10.0.0.1/abc''
   \<and> \<not> lexists (snd (snd (move_task ERROR_STATUS None (example_task ''X1,X2'') example_fs)))
         ''b/processing/10.0.0.1/abc''
   \<and> \<not> lexists (snd (snd (move_task ERROR_STATUS None (example_task ''X1,X2'') example_fs)))
         ''b/processing/10.0.0.1/abc/task.json''
   \<and> read_json (snd (snd (move_task ERROR_STATUS None (example_task ''X1,X2'') example_fs)))
         ''b/done/10.0.0.1/abc/task.json''
       = Inr (PyDict [(''alpha'', PyNum ''0.1''), (''seeds'', PyStr ''X1,X2''),
                      (''error'', PyStr ''Unknown error'')])"
proof -
  let ?m = "move_task ERROR_STATUS None (example_task ''X1,X2'') example_fs"
  have h1: "normal ''b''" by code_simp
  have h2: "is_name ''processing''" by code_simp
  have h3: "is_name ''10.0.0.1''" by code_simp
  have h4: "is_name ''abc''" by code_simp
  have h5: "''processing'' \<noteq> ERROR_STATUS" by code_simp
  have h6: "taskdir (example_task ''X1,X2'')
            = Some (task_path ''b'' ''processing'' ''10.0.0.1'' ''abc'')"
    by code_simp
  have h7: "taskdict (example_task ''X1,X2'')
            = PyDict [(''alpha'', PyNum ''0.1''), (''seeds'', PyStr ''X1,X2'')]"
    by code_simp
  have h8: "?m = (fst ?m, fst (snd ?m), snd (snd ?m))"
    by simp
  have fresh: "\<not> isdir example_fs (task_path ''b'' DONE_STATUS ''10.0.0.1'' ''abc'')"
    by code_simp
  have r: "fst ?m = Inr None"
    by code_simp
  have e2: "task_path ''b'' DONE_STATUS ''10.0.0.1'' ''abc'' = ''b/done/10.0.0.1/abc''"
    by code_simp
  have e3: "task_path ''b'' ''processing'' ''10.0.0.1'' ''abc'' = ''b/processing/10.0.0.1/abc''"
    by code_simp
  have e4: "path_join ''b/processing/10.0.0.1/abc'' TASK_JSON
            = ''b/processing/10.0.0.1/abc/task.json''"
    by code_simp
  have e5: "resultdata (example_task ''X1,X2'') = PyNone"
    by code_simp
  have e6: "oplog example_fs = []"
    by code_simp
  have e7: "path_join ''b/done/10.0.0.1/abc'' TASK_JSON = ''b/done/10.0.0.1/abc/task.json''"
    by code_simp
  have u1: "under ''b/processing/10.0.0.1/abc'' ''b/processing/10.0.0.1/abc''"
    by code_simp
  have u2: "under ''b/processing/10.0.0.1/abc'' ''b/processing/10.0.0.1/abc/task.json''"
    by code_simp
  note th = move_task_error_folds_into_done [OF h1 h2 h3 h4 h5 h6 h7 h8]
  have res: "taskdict (fst (snd ?m))
       = PyDict [(''alpha'', PyNum ''0.1''), (''seeds'', PyStr ''X1,X2''),
                 (''error'', PyStr ''Unknown error'')]
     \<and> taskdir (fst (snd ?m)) = Some ''b/done/10.0.0.1/abc''
     \<and> oplog (snd (snd ?m))
       = [OpWrite ''b/processing/10.0.0.1/abc/task.json''
            (JsonText (PyDict [(''alpha'', PyNum ''0.1''), (''seeds'', PyStr ''X1,X2''),
                               (''error'', PyStr ''Unknown error'')])),
          OpMove ''b/processing/10.0.0.1/abc'' ''b/done/10.0.0.1/abc'']"
    using th by (simp add: r e2 e3 e4 e5 e6 ERROR_PARAM_def)
  have disk: "isdir (snd (snd ?m)) ''b/done/10.0.0.1/abc''
     \<and> (\<forall>p. under ''b/processing/10.0.0.1/abc'' p \<longrightarrow> \<not> lexists (snd (snd ?m)) p)
     \<and> read_json (snd (snd ?m)) ''b/done/10.0.0.1/abc/task.json''
         = Inr (taskdict (fst (snd ?m)))"
    using th fresh by (simp add: r e2 e3 e7)
  have gone: "\<not> lexists (snd (snd ?m)) ''b/processing/10.0.0.1/abc''"
             "\<not> lexists (snd (snd ?m)) ''b/processing/10.0.0.1/abc/task.json''"
    using disk u1 u2 by blast+
  have rd: "read_json (snd (snd ?m)) ''b/done/10.0.0.1/abc/task.json''
       = Inr (PyDict [(''alpha'', PyNum ''0.1''), (''seeds'', PyStr ''X1,X2''),
                      (''error'', PyStr ''Unknown error'')])"
    using disk res by simp
  from h1 h2 h3 h4 h5 h6 fresh r res [THEN conjunct1] res [THEN conjunct2, THEN conjunct1]
    res [THEN conjunct2, THEN conjunct2] disk [THEN conjunct1] gone rd
  show ?thesis
    by (intro conjI)
qed

lemma move_task_taskdict:
  assumes "move_task ns em t fs = (r, t', fs')"
  shows "taskdict t' = taskdict t
       \<or> (ns = ERROR_STATUS
          \<and> setitem (taskdict t) ERROR_PARAM
                (PyStr (case em of None \<Rightarrow> ''Unknown error'' | Some m \<Rightarrow> m))
              = Inr (taskdict t'))"
  using assms
  by (auto simp: move_task_def Let_def split: if_splits sum.splits prod.splits option.splits)

text \<open>What a move of a well-formed task does, for the moves the runner makes.\<close>

lemma move_task_forward:
  assumes wf: "normal b" "is_name ip" "is_name u"
    and dir: "taskdir t = Some (task_path b st ip u)"
    and allowed: "st = SUBMITTED_STATUS \<and> ns \<in> {PROCESSING_STATUS, DONE_STATUS, ERROR_STATUS}
                  \<or> st = PROCESSING_STATUS \<and> ns \<in> {DONE_STATUS, ERROR_STATUS}"
    and mv: "move_task ns em t fs = (r, t', fs')"
  shows "forward_since fs fs'
       \<and> (case r of
            Inl e \<Rightarrow> taskdir t' = taskdir t
          | Inr v \<Rightarrow> taskdir t'
                     = Some (task_path b (if ns = ERROR_STATUS then DONE_STATUS else ns) ip u))"
proof -
  let ?ns = "if ns = ERROR_STATUS then DONE_STATUS else ns"
  have st: "is_name st" and neq: "st \<noteq> ns"
    using allowed status_names status_distinct by auto
  have fm: "forward_move (OpMove (task_path b st ip u) (task_path b ?ns ip u))"
  proof -
    obtain k k' where "state_rank st = Some k" "state_rank ?ns = Some k'" "k < k'" "is_name ?ns"
      using allowed status_ranks status_names status_distinct by auto
    then show ?thesis
      using forward_task_move [OF wf st] by blast
  qed
  note eq = move_task_wf [OF wf(1) st wf(2,3) dir neq, of em fs]
  show ?thesis
  proof (cases "ns = ERROR_STATUS")
    case False
    show ?thesis
    proof (cases "shutil_move (task_path b st ip u) (task_path b ns ip u) fs")
      case (Inl e)
      then show ?thesis
        using mv eq False by (auto simp: forward_since_refl)
    next
      case (Inr fs2)
      then have "forward_since fs fs2"
        using fm False by (auto intro: shutil_move_forward)
      then show ?thesis
        using mv eq False Inr by auto
    qed
  next
    case True
    show ?thesis
    proof (cases "setitem (taskdict t) ERROR_PARAM
                    (PyStr (case em of None \<Rightarrow> ''Unknown error'' | Some m \<Rightarrow> m))")
      case (Inl e)
      then show ?thesis
        using mv eq True by (auto simp: forward_since_refl)
    next
      case (Inr td)
      obtain rs fs1 where sv: "save_task (t\<lparr>taskdict := td\<rparr>) fs = (rs, fs1)"
        by (cases "save_task (t\<lparr>taskdict := td\<rparr>) fs")
      note f1 = save_task_forward [OF sv]
      show ?thesis
      proof (cases rs)
        case (Inl e)
        then show ?thesis
          using mv eq True Inr sv f1 by auto
      next
        case rsr: (Inr x)
        show ?thesis
        proof (cases "shutil_move (task_path b st ip u) (task_path b DONE_STATUS ip u) fs1")
          case (Inl e)
          then show ?thesis
            using mv eq True Inr sv f1 rsr by auto
        next
          case mvr: (Inr fs2)
          then have "forward_since fs1 fs2"
            using fm True by (auto intro: shutil_move_forward)
          then have "forward_since fs fs2"
            using f1 forward_since_trans by blast
          then show ?thesis
            using mv eq True Inr sv rsr mvr by auto
        qed
      qed
    qed
  qed
qed

lemma and_return_move_task:
  assumes "and_return (move_task ns em t fs) = (r, t', fs')"
  obtains r0 where "move_task ns em t fs = (r0, t', fs')"
  using assms by (auto simp: and_return_def split: prod.splits sum.splits)

lemma and_return_forward:
  assumes wf: "normal b" "is_name ip" "is_name u"
    and dir: "taskdir t = Some (task_path b PROCESSING_STATUS ip u)"
    and ns: "ns = DONE_STATUS \<or> ns = ERROR_STATUS"
    and ar: "and_return (move_task ns em t fs) = (r, t', fs')"
  shows "forward_since fs fs'
       \<and> (\<forall>e. r = Inl e \<longrightarrow> taskdir t' = Some (task_path b PROCESSING_STATUS ip u))"
proof -
  obtain r0 where mv: "move_task ns em t fs = (r0, t', fs')"
    using ar by (rule and_return_move_task)
  have r: "r = Inl e \<longleftrightarrow> r0 = Inl e" for e
    using ar mv by (cases r0) (auto simp: and_return_def)
  have "st = SUBMITTED_STATUS \<and> ns \<in> {PROCESSING_STATUS, DONE_STATUS, ERROR_STATUS}
        \<or> st = PROCESSING_STATUS \<and> ns \<in> {DONE_STATUS, ERROR_STATUS}"
    if "st = PROCESSING_STATUS" for st
    using ns that by auto
  from move_task_forward [OF wf dir this mv] show ?thesis
    using r dir by (cases r0) auto
qed

subsection \<open>Seed filtering\<close>

text \<open>
  C2. The seed filter at the seed string "X1,X2,G1" and the network with nodes G1, G2,
  G3: the loop removes X1, which moves X2 under the index just visited, so X2 is never
  tested and stays in the list the stage returns although it is no node of the graph.
\<close>

theorem runner_get_seeds_keeps_non_member:
  "runner_get_seeds (example_task ''X1,X2,G1'') = Inr (Some [''X2'', ''G1''])
   \<and> ''X2'' \<notin> set (nodes example_graph)"
  by code_simp

text \<open>
  C1. The spec's seed mismatch scenario (seeds "X1,X2", network G1-G2, G2-G3). The seed
  filter returns X2 (see C2), so the seed block of \<^verbatim>\<open>_process_task\<close> does not take its "No
  seeds are in network" branch: with any collaborators and on any filesystem it hands
  over to the summary block with X2 as the filtered seed list. Run through one
  iteration of the runner with collaborators that succeed, the task ends under done
  with a result file and a record without any error field, where the spec promises a
  done task with a seed-related error and no result.
\<close>

theorem seed_mismatch_ends_with_result:
  "process_seeds c (example_task ''X1,X2'') fs
     = process_summary c ((example_task ''X1,X2'')\<lparr>filteredseedlist := Some [''X2'']\<rparr>) fs
   \<and> (case run_tasks_body example_collaborators ''public.ndexbio.org'' (start mismatch_fs) of
        (r, st) \<Rightarrow>
          r = None
          \<and> read_json (fsys st) ''b/done/10.0.0.1/abc/task.json''
              = Inr (PyDict [(''alpha'', PyNum ''0.1''), (''seeds'', PyStr ''X1,X2'')])
          \<and> read_json (fsys st) ''b/done/10.0.0.1/abc/result.json''
              = Inr (PyDict [(''G1'', PyNum ''0.0''), (''G2'', PyNum ''0.0''),
                             (''G3'', PyNum ''0.0'')]))"
proof -
  have "runner_get_seeds (example_task ''X1,X2'') = Inr (Some [''X2''])"
    by code_simp
  then have "process_seeds c (example_task ''X1,X2'') fs
     = process_summary c ((example_task ''X1,X2'')\<lparr>filteredseedlist := Some [''X2'']\<rparr>) fs"
    by (simp add: process_seeds_def)
  moreover have
    "(case run_tasks_body example_collaborators ''public.ndexbio.org'' (start mismatch_fs) of
        (r, st) \<Rightarrow>
          r = None
          \<and> read_json (fsys st) ''b/done/10.0.0.1/abc/task.json''
              = Inr (PyDict [(''alpha'', PyNum ''0.1''), (''seeds'', PyStr ''X1,X2'')])
          \<and> read_json (fsys st) ''b/done/10.0.0.1/abc/result.json''
              = Inr (PyDict [(''G1'', PyNum ''0.0''), (''G2'', PyNum ''0.0''),
                             (''G3'', PyNum ''0.0'')]))"
    by code_simp
  ultimately show ?thesis
    by (intro conjI)
qed

subsection \<open>The gene level summary\<close>

lemma create_gene_level_summary_not_None: "create_gene_level_summary t \<noteq> Inr None"
  by (simp add: create_gene_level_summary_def Let_def split: option.splits)

lemma and_return_stored_error:
  assumes "and_return (move_task ns em t fs) = (r, t', fs')"
    and "ns = ERROR_STATUS \<Longrightarrow> \<exists>m \<in> set pipeline_messages. em = Some m"
  shows "stored_error t t'"
proof -
  obtain r0 where "move_task ns em t fs = (r0, t', fs')"
    using assms(1) by (rule and_return_move_task)
  from move_task_taskdict [OF this] assms(2) show ?thesis
    by (auto simp: stored_error_def list_ex_iff)
qed

lemma stored_error_update:
  "taskdict t1 = taskdict t \<Longrightarrow> stored_error t1 t' \<Longrightarrow> stored_error t t'"
  by (simp add: stored_error_def)

lemma process_diffusion_taskdict:
  assumes "process_diffusion c t fs = (r, t', fs')"
  shows "stored_error t t'"
proof (cases "run_nbgwas c t")
  case (Inl e)
  then show ?thesis
    using assms by (simp add: process_diffusion_def stored_error_def)
next
  case (Inr result)
  show ?thesis
  proof (cases "result = PyNone")
    case True
    then have "and_return (move_task ERROR_STATUS (Some ''No result generated'') t fs) = (r, t', fs')"
      using assms Inr by (simp add: process_diffusion_def)
    then show ?thesis
      by (rule and_return_stored_error) (simp add: pipeline_messages_def)
  next
    case False
    let ?t5 = "t\<lparr>resultdata := result\<rparr>"
    obtain rs fs1 where sv: "save_task ?t5 fs = (rs, fs1)"
      by (cases "save_task ?t5 fs")
    show ?thesis
    proof (cases rs)
      case (Inl e)
      then show ?thesis
        using assms Inr False sv by (auto simp: process_diffusion_def stored_error_def)
    next
      case (Inr x)
      then have "and_return (move_task DONE_STATUS None ?t5 fs1) = (r, t', fs')"
        using assms \<open>run_nbgwas c t = Inr result\<close> False sv by (simp add: process_diffusion_def)
      then have "stored_error ?t5 t'"
        by (rule and_return_stored_error) (simp add: DONE_STATUS_def ERROR_STATUS_def)
      then show ?thesis
        by (simp add: stored_error_def)
    qed
  qed
qed

lemma process_summary_taskdict:
  assumes "process_summary c t fs = (r, t', fs')"
  shows "stored_error t t'"
proof (cases "create_gene_level_summary t")
  case (Inl e)
  then show ?thesis
    using assms by (simp add: process_summary_def stored_error_def)
next
  case (Inr g)
  then obtain gls where g: "g = Some gls"
    using create_gene_level_summary_not_None [of t] by (cases g) auto
  then have "process_diffusion c (t\<lparr>genelevelsummary := Some gls\<rparr>) fs = (r, t', fs')"
    using assms Inr by (simp add: process_summary_def)
  then have "stored_error (t\<lparr>genelevelsummary := Some gls\<rparr>) t'"
    by (rule process_diffusion_taskdict)
  then show ?thesis
    by (simp add: stored_error_def)
qed

lemma process_seeds_taskdict:
  assumes "process_seeds c t fs = (r, t', fs')"
  shows "stored_error t t'"
proof -
  have err: "stored_error t t'"
    if "and_return (move_task ERROR_STATUS (Some ''No seeds are in network'') t fs) = (r, t', fs')"
    using that by (rule and_return_stored_error) (simp add: pipeline_messages_def)
  have go: "stored_error t t'"
    if "process_summary c (t\<lparr>filteredseedlist := Some sl\<rparr>) fs = (r, t', fs')" for sl
    using process_summary_taskdict [OF that] by (simp add: stored_error_def)
  show ?thesis
    using assms err go
    by (auto simp: process_seeds_def stored_error_def split: sum.splits option.splits if_splits)
qed

lemma process_network_taskdict:
  assumes "process_network c server t fs = (r, t', fs')"
  shows "stored_error t t'"
proof -
  have err: "stored_error t t'"
    if "and_return (move_task ERROR_STATUS (Some ''Unable to get networkx object for task'') t fs)
        = (r, t', fs')"
    using that by (rule and_return_stored_error) (simp add: pipeline_messages_def)
  have go: "stored_error t t'"
    if "process_seeds c (t\<lparr>networkx_obj := Some g\<rparr>) fs = (r, t', fs')" for g
    using process_seeds_taskdict [OF that] by (simp add: stored_error_def)
  show ?thesis
    using assms err go
    by (auto simp: process_network_def stored_error_def split: sum.splits option.splits)
qed

lemma process_task_taskdict:
  assumes "process_task c server t fs = (r, t', fs')"
  shows "stored_error t t'"
proof (cases "taskdir t")
  case None
  then show ?thesis
    using assms by (simp add: process_task_def stored_error_def)
next
  case (Some d)
  obtain r1 t1 fs1 where mv: "move_task PROCESSING_STATUS None t fs = (r1, t1, fs1)"
    by (cases "move_task PROCESSING_STATUS None t fs")
  have td: "taskdict t1 = taskdict t"
    using move_task_taskdict [OF mv] by (simp add: PROCESSING_STATUS_def ERROR_STATUS_def)
  show ?thesis
  proof (cases r1)
    case (Inl e)
    then show ?thesis
      using assms Some mv td by (simp add: process_task_def stored_error_def)
  next
    case (Inr x)
    then have "process_network c server t1 fs1 = (r, t', fs')"
      using assms Some mv by (simp add: process_task_def)
    then have "stored_error t1 t'"
      by (rule process_network_taskdict)
    then show ?thesis
      using td by (simp add: stored_error_def)
  qed
qed

text \<open>
  C10. For a task with a graph and a filtered seed list attached,
  \<^verbatim>\<open>_create_gene_level_summary\<close> returns a table, not \<^verbatim>\<open>None\<close>: one row per node of the
  graph, in the order of the nodes, with p-value 0 when the gene is in the filtered
  seed list and 1 otherwise. So the summary block of \<^verbatim>\<open>_process_task\<close> never takes its
  "Unable to create gene level summary" branch: it always goes on to the diffusion
  block with that table attached. And over the whole of \<^verbatim>\<open>_process_task\<close>, on any task,
  the metadata is left as it was or has gained one of the three other messages.
\<close>

theorem create_gene_level_summary_total:
  assumes "networkx_obj t = Some g" and "filteredseedlist t = Some sl"
  shows "create_gene_level_summary t
           = Inr (Some (map (\<lambda>n. (n, if n \<in> set sl then 0 else 1)) (nodes g)))
       \<and> process_summary c t fs
           = process_diffusion c
               (t\<lparr>genelevelsummary :=
                    Some (map (\<lambda>n. (n, if n \<in> set sl then 0 else 1)) (nodes g))\<rparr>) fs
       \<and> stored_error t0 (fst (snd (process_task c server t0 fs0)))"
proof -
  have rows: "create_gene_level_summary t
           = Inr (Some (map (\<lambda>n. (n, if n \<in> set sl then 0 else 1)) (nodes g)))"
    using assms by (simp add: create_gene_level_summary_def Let_def comp_def)
  have "process_task c server t0 fs0
        = (fst (process_task c server t0 fs0), fst (snd (process_task c server t0 fs0)),
           snd (snd (process_task c server t0 fs0)))"
    by simp
  then have "stored_error t0 (fst (snd (process_task c server t0 fs0)))"
    by (rule process_task_taskdict)
  then show ?thesis
    using rows by (simp add: process_summary_def)
qed

theorem create_gene_level_summary_total_witness:
  "networkx_obj ((example_task ''G1,X9'')\<lparr>filteredseedlist := Some [''G1'']\<rparr>) = Some example_graph
   \<and> filteredseedlist ((example_task ''G1,X9'')\<lparr>filteredseedlist := Some [''G1'']\<rparr>) = Some [''G1'']
   \<and> create_gene_level_summary ((example_task ''G1,X9'')\<lparr>filteredseedlist := Some [''G1'']\<rparr>)
       = Inr (Some [(''G1'', 0), (''G2'', 1), (''G3'', 1)])"
proof -
  have h1: "networkx_obj ((example_task ''G1,X9'')\<lparr>filteredseedlist := Some [''G1'']\<rparr>)
            = Some example_graph"
    by code_simp
  have h2: "filteredseedlist ((example_task ''G1,X9'')\<lparr>filteredseedlist := Some [''G1'']\<rparr>)
            = Some [''G1'']"
    by code_simp
  have e: "map (\<lambda>n. (n, if n \<in> set [''G1''] then 0 else 1)) (nodes example_graph)
           = [(''G1'', 0::int), (''G2'', 1), (''G3'', 1)]"
    by code_simp
  have "create_gene_level_summary ((example_task ''G1,X9'')\<lparr>filteredseedlist := Some [''G1'']\<rparr>)
        = Inr (Some (map (\<lambda>n. (n, if n \<in> set [''G1''] then 0 else 1)) (nodes example_graph)))"
    using create_gene_level_summary_total [OF h1 h2] by (rule conjunct1)
  then have "create_gene_level_summary ((example_task ''G1,X9'')\<lparr>filteredseedlist := Some [''G1'']\<rparr>)
        = Inr (Some [(''G1'', 0), (''G2'', 1), (''G3'', 1)])"
    unfolding e .
  with h1 h2 show ?thesis
    by (intro conjI)
qed

subsection \<open>Fetching the next task\<close>

lemma scan_subentries_flat:
  "scan_subentries fs fp names pl
   = scan_candidates fs (filter (isdir fs) (map (path_join fp) names)) pl"
  by (induction names arbitrary: pl) (auto simp: Let_def split: sum.splits)

lemma scan_candidates_append:
  "scan_candidates fs (xs @ ys) pl =
     (case scan_candidates fs xs pl of
        (Some t, pl') \<Rightarrow> (Some t, pl')
      | (None, pl') \<Rightarrow> scan_candidates fs ys pl')"
  by (induction xs arbitrary: pl) (auto split: sum.splits)

lemma scan_entries_flat:
  "scan_entries fs sd entries pl
   = scan_candidates fs
       (concat (map (\<lambda>entry.
                    if isdir fs (path_join sd entry)
                    then filter (isdir fs)
                           (map (path_join (path_join sd entry))
                              (listdir fs (path_join sd entry)))
                    else [])
               entries)) pl"
proof (induction entries arbitrary: pl)
  case Nil
  show ?case by simp
next
  case (Cons entry rest)
  show ?case
  proof (cases "isdir fs (path_join sd entry)")
    case False
    then show ?thesis
      using Cons.IH by (simp add: Let_def)
  next
    case True
    then show ?thesis
      using Cons.IH
      by (simp add: Let_def scan_subentries_flat scan_candidates_append
          split: prod.splits option.splits)
  qed
qed

lemma get_next_task_flat:
  assumes "submitdir f = Some sd" and "isdir fs sd"
  shows "get_next_task f fs =
     (fst (scan_candidates fs (candidates fs sd) (problemlist f)),
      f\<lparr>problemlist := snd (scan_candidates fs (candidates fs sd) (problemlist f))\<rparr>)"
  using assms
  by (simp add: get_next_task_def scan_entries_flat candidates_def split: prod.splits)

lemma scan_candidates_new:
  "scan_candidates fs ds pl = (r, pl') \<Longrightarrow>
   \<exists>new. pl' = pl @ new \<and> distinct new \<and> set new \<inter> set pl = {}
         \<and> (\<forall>d \<in> set new. d \<in> set ds \<and> unparseable fs d)"
proof (induction ds arbitrary: pl)
  case Nil
  then show ?case by simp
next
  case (Cons d ds)
  show ?case
  proof (cases "isfile fs (path_join d TASK_JSON)")
    case False
    then have "scan_candidates fs ds pl = (r, pl')"
      using Cons.prems by simp
    from Cons.IH [OF this] show ?thesis
      by auto
  next
    case True
    show ?thesis
    proof (cases "read_json fs (path_join d TASK_JSON)")
      case (Inr v)
      then show ?thesis
        using Cons.prems True by auto
    next
      case (Inl e)
      then have u: "unparseable fs d"
        using True by (simp add: unparseable_def)
      show ?thesis
      proof (cases "d \<in> set pl")
        case True
        then have "scan_candidates fs ds pl = (r, pl')"
          using Cons.prems \<open>isfile fs (path_join d TASK_JSON)\<close> Inl by simp
        from Cons.IH [OF this] show ?thesis
          by auto
      next
        case False
        then have "scan_candidates fs ds (pl @ [d]) = (r, pl')"
          using Cons.prems \<open>isfile fs (path_join d TASK_JSON)\<close> Inl by simp
        from Cons.IH [OF this] obtain new where
          new: "pl' = (pl @ [d]) @ new" "distinct new" "set new \<inter> set (pl @ [d]) = {}"
               "\<forall>x \<in> set new. x \<in> set ds \<and> unparseable fs x"
          by blast
        have "pl' = pl @ (d # new)" using new(1) by simp
        moreover have "distinct (d # new)" using new(2,3) by auto
        moreover have "set (d # new) \<inter> set pl = {}" using new(3) False by auto
        moreover have "\<forall>x \<in> set (d # new). x \<in> set (d # ds) \<and> unparseable fs x"
          using new(4) u by auto
        ultimately show ?thesis
          by blast
      qed
    qed
  qed
qed

lemma scan_candidates_mono: "scan_candidates fs ds pl = (r, pl') \<Longrightarrow> set pl \<subseteq> set pl'"
  using scan_candidates_new by fastforce

lemma scan_candidates_None:
  "scan_candidates fs ds pl = (None, pl') \<Longrightarrow>
   \<forall>d \<in> set ds. \<not> readable fs d \<and> (unparseable fs d \<longrightarrow> d \<in> set pl')"
proof (induction ds arbitrary: pl)
  case Nil
  then show ?case by simp
next
  case (Cons d ds)
  show ?case
  proof (cases "isfile fs (path_join d TASK_JSON)")
    case False
    then have "scan_candidates fs ds pl = (None, pl')"
      using Cons.prems by simp
    from Cons.IH [OF this] False show ?thesis
      by (auto simp: readable_def unparseable_def)
  next
    case True
    then obtain e where e: "read_json fs (path_join d TASK_JSON) = Inl e"
      using Cons.prems by (cases "read_json fs (path_join d TASK_JSON)") auto
    let ?pl = "if d \<in> set pl then pl else pl @ [d]"
    have rec: "scan_candidates fs ds ?pl = (None, pl')"
      using Cons.prems True e by simp
    have "d \<in> set ?pl" by simp
    then have "d \<in> set pl'"
      using scan_candidates_mono [OF rec] by blast
    then show ?thesis
      using Cons.IH [OF rec] e by (auto simp: readable_def)
  qed
qed

lemma scan_candidates_Some:
  "scan_candidates fs ds pl = (Some t, pl') \<Longrightarrow>
   \<exists>pre d post v. ds = pre @ d # post \<and> t = FileBasedTask (Some d) v
       \<and> isfile fs (path_join d TASK_JSON) \<and> read_json fs (path_join d TASK_JSON) = Inr v
       \<and> (\<forall>x \<in> set pre. \<not> readable fs x \<and> (unparseable fs x \<longrightarrow> x \<in> set pl'))"
proof (induction ds arbitrary: pl)
  case Nil
  then show ?case by simp
next
  case (Cons d ds)
  show ?case
  proof (cases "readable fs d")
    case True
    then obtain v where v: "isfile fs (path_join d TASK_JSON)"
        "read_json fs (path_join d TASK_JSON) = Inr v"
      by (auto simp: readable_def split: sum.splits)
    then have "t = FileBasedTask (Some d) v"
      using Cons.prems by simp
    then have "d # ds = [] @ d # ds \<and> t = FileBasedTask (Some d) v
       \<and> isfile fs (path_join d TASK_JSON) \<and> read_json fs (path_join d TASK_JSON) = Inr v
       \<and> (\<forall>x \<in> set []. \<not> readable fs x \<and> (unparseable fs x \<longrightarrow> x \<in> set pl'))"
      using v by simp
    then show ?thesis
      by blast
  next
    case False
    let ?pl = "if unparseable fs d \<and> d \<notin> set pl then pl @ [d] else pl"
    have rec: "scan_candidates fs ds ?pl = (Some t, pl')"
      using Cons.prems False
      by (auto simp: readable_def unparseable_def split: sum.splits if_splits)
    have "unparseable fs d \<longrightarrow> d \<in> set ?pl" by simp
    then have here: "unparseable fs d \<longrightarrow> d \<in> set pl'"
      using scan_candidates_mono [OF rec] by blast
    from Cons.IH [OF rec] obtain pre x post v where
      p: "ds = pre @ x # post" "t = FileBasedTask (Some x) v"
         "isfile fs (path_join x TASK_JSON)" "read_json fs (path_join x TASK_JSON) = Inr v"
         "\<forall>y \<in> set pre. \<not> readable fs y \<and> (unparseable fs y \<longrightarrow> y \<in> set pl')"
      by blast
    have "d # ds = (d # pre) @ x # post \<and> t = FileBasedTask (Some x) v
       \<and> isfile fs (path_join x TASK_JSON) \<and> read_json fs (path_join x TASK_JSON) = Inr v
       \<and> (\<forall>y \<in> set (d # pre). \<not> readable fs y \<and> (unparseable fs y \<longrightarrow> y \<in> set pl'))"
      using p False here by simp
    then show ?thesis
      by blast
  qed
qed

text \<open>
  C6, as stated, fails for a missing record file: a scanned task directory without one
  is skipped without being added to the quarantine list. Here the only submitted task
  directory has no record file; the call returns \<^verbatim>\<open>None\<close> and the list stays empty.
\<close>

theorem missing_record_not_quarantined:
  "''b/submitted/10.0.0.1/abc'' \<in> set (candidates missing_fs ''b/submitted'')
   \<and> \<not> isfile missing_fs ''b/submitted/10.0.0.1/abc/task.json''
   \<and> fst (get_next_task (FileBasedSubmittedTaskFactory ''b'') missing_fs) = None
   \<and> ''b/submitted/10.0.0.1/abc''
        \<notin> set (problemlist (snd (get_next_task (FileBasedSubmittedTaskFactory ''b'') missing_fs)))"
  by code_simp

text \<open>
  C6, amended. In one \<^verbatim>\<open>get_next_task\<close> call on a factory with a submitted directory
  \<open>sd\<close>: the call returns \<^verbatim>\<open>None\<close> exactly when \<open>sd\<close> is no directory or no candidate task
  directory is readable, and in the first case the factory is unchanged. Only the
  problem list of the factory changes: it grows by a list of new entries without
  repetition, none of them in the list before, each a scanned task directory whose
  record file exists and does not parse (so a directory without a record file is never
  added). When the call returns \<^verbatim>\<open>None\<close> every unparseable candidate is in the list
  afterwards; when it returns a task, that task is bound to a candidate and carries the
  parsed record, every candidate before it in scan order is unreadable, and the
  unparseable ones among them are in the list: they were skipped and the scan went on.
\<close>

theorem get_next_task_quarantine:
  assumes "submitdir f = Some sd" and "get_next_task f fs = (r, f')"
  shows "(r = None \<longleftrightarrow> \<not> isdir fs sd \<or> list_all (\<lambda>d. \<not> readable fs d) (candidates fs sd))
       \<and> (\<not> isdir fs sd \<longrightarrow> f' = f)
       \<and> (\<exists>new. f' = f\<lparr>problemlist := problemlist f @ new\<rparr> \<and> distinct new
                \<and> set new \<inter> set (problemlist f) = {}
                \<and> (\<forall>d \<in> set new. d \<in> set (candidates fs sd) \<and> unparseable fs d))
       \<and> (r = None \<longrightarrow> isdir fs sd \<longrightarrow>
            (\<forall>d \<in> set (candidates fs sd). unparseable fs d \<longrightarrow> d \<in> set (problemlist f')))
       \<and> (\<forall>t. r = Some t \<longrightarrow>
            (\<exists>pre d post v.
                candidates fs sd = pre @ d # post \<and> t = FileBasedTask (Some d) v
                \<and> read_json fs (path_join d TASK_JSON) = Inr v
                \<and> (\<forall>x \<in> set pre. \<not> readable fs x
                                  \<and> (unparseable fs x \<longrightarrow> x \<in> set (problemlist f')))))"
proof (cases "isdir fs sd")
  case False
  then have "r = None" "f' = f"
    using assms by (simp_all add: get_next_task_def)
  moreover have "f = f\<lparr>problemlist := problemlist f @ []\<rparr>"
    by simp
  ultimately have c3: "\<exists>new. f' = f\<lparr>problemlist := problemlist f @ new\<rparr> \<and> distinct new
                \<and> set new \<inter> set (problemlist f) = {}
                \<and> (\<forall>d \<in> set new. d \<in> set (candidates fs sd) \<and> unparseable fs d)"
    by (intro exI [of _ "[]"]) simp
  show ?thesis
  proof (intro conjI)
    show "r = None \<longleftrightarrow> \<not> isdir fs sd \<or> list_all (\<lambda>d. \<not> readable fs d) (candidates fs sd)"
      using False \<open>r = None\<close> by simp
    show "\<not> isdir fs sd \<longrightarrow> f' = f"
      using \<open>f' = f\<close> by simp
    show "\<exists>new. f' = f\<lparr>problemlist := problemlist f @ new\<rparr> \<and> distinct new
                \<and> set new \<inter> set (problemlist f) = {}
                \<and> (\<forall>d \<in> set new. d \<in> set (candidates fs sd) \<and> unparseable fs d)"
      by (rule c3)
    show "r = None \<longrightarrow> isdir fs sd \<longrightarrow>
            (\<forall>d \<in> set (candidates fs sd). unparseable fs d \<longrightarrow> d \<in> set (problemlist f'))"
      using False by simp
    show "\<forall>t. r = Some t \<longrightarrow>
            (\<exists>pre d post v.
                candidates fs sd = pre @ d # post \<and> t = FileBasedTask (Some d) v
                \<and> read_json fs (path_join d TASK_JSON) = Inr v
                \<and> (\<forall>x \<in> set pre. \<not> readable fs x
                                  \<and> (unparseable fs x \<longrightarrow> x \<in> set (problemlist f'))))"
      using \<open>r = None\<close> by simp
  qed
next
  case True
  obtain pl' where sc: "scan_candidates fs (candidates fs sd) (problemlist f) = (r, pl')"
    and f': "f' = f\<lparr>problemlist := pl'\<rparr>"
    using assms get_next_task_flat [OF assms(1) True]
    by (cases "scan_candidates fs (candidates fs sd) (problemlist f)") auto
  from scan_candidates_new [OF sc] obtain new where
    new: "pl' = problemlist f @ new" "distinct new" "set new \<inter> set (problemlist f) = {}"
         "\<forall>d \<in> set new. d \<in> set (candidates fs sd) \<and> unparseable fs d"
    by blast
  have c3: "\<exists>new. f' = f\<lparr>problemlist := problemlist f @ new\<rparr> \<and> distinct new
                \<and> set new \<inter> set (problemlist f) = {}
                \<and> (\<forall>d \<in> set new. d \<in> set (candidates fs sd) \<and> unparseable fs d)"
    using new f' by blast
  have c5: "\<exists>pre d post v.
                candidates fs sd = pre @ d # post \<and> t = FileBasedTask (Some d) v
                \<and> read_json fs (path_join d TASK_JSON) = Inr v
                \<and> (\<forall>x \<in> set pre. \<not> readable fs x
                                  \<and> (unparseable fs x \<longrightarrow> x \<in> set (problemlist f')))"
    if "r = Some t" for t
    using scan_candidates_Some [of fs "candidates fs sd" "problemlist f" t pl'] sc that f'
    by auto
  have c4: "\<forall>d \<in> set (candidates fs sd).
              \<not> readable fs d \<and> (unparseable fs d \<longrightarrow> d \<in> set (problemlist f'))"
    if "r = None"
    using scan_candidates_None [of fs "candidates fs sd" "problemlist f" pl'] sc that f'
    by auto
  have readable_found: "\<not> list_all (\<lambda>d. \<not> readable fs d) (candidates fs sd)"
    if rt: "r = Some t" for t
  proof -
    have "scan_candidates fs (candidates fs sd) (problemlist f) = (Some t, pl')"
      using sc rt by simp
    from scan_candidates_Some [OF this] obtain pre d post v where
      "candidates fs sd = pre @ d # post" "isfile fs (path_join d TASK_JSON)"
      "read_json fs (path_join d TASK_JSON) = Inr v"
      by blast
    then show ?thesis
      by (auto simp: readable_def list_all_iff)
  qed
  have c1: "r = None \<longleftrightarrow> \<not> isdir fs sd \<or> list_all (\<lambda>d. \<not> readable fs d) (candidates fs sd)"
    using True c4 readable_found by (cases r) (auto simp: list_all_iff)
  show ?thesis
  proof (intro conjI)
    show "r = None \<longleftrightarrow> \<not> isdir fs sd \<or> list_all (\<lambda>d. \<not> readable fs d) (candidates fs sd)"
      by (rule c1)
    show "\<not> isdir fs sd \<longrightarrow> f' = f"
      using True by simp
    show "\<exists>new. f' = f\<lparr>problemlist := problemlist f @ new\<rparr> \<and> distinct new
                \<and> set new \<inter> set (problemlist f) = {}
                \<and> (\<forall>d \<in> set new. d \<in> set (candidates fs sd) \<and> unparseable fs d)"
      by (rule c3)
    show "r = None \<longrightarrow> isdir fs sd \<longrightarrow>
            (\<forall>d \<in> set (candidates fs sd). unparseable fs d \<longrightarrow> d \<in> set (problemlist f'))"
      using c4 by blast
    show "\<forall>t. r = Some t \<longrightarrow>
            (\<exists>pre d post v.
                candidates fs sd = pre @ d # post \<and> t = FileBasedTask (Some d) v
                \<and> read_json fs (path_join d TASK_JSON) = Inr v
                \<and> (\<forall>x \<in> set pre. \<not> readable fs x
                                  \<and> (unparseable fs x \<longrightarrow> x \<in> set (problemlist f'))))"
      using c5 by blast
  qed
qed

theorem get_next_task_quarantine_witness:
  "submitdir (FileBasedSubmittedTaskFactory ''b'') = Some ''b/submitted''
   \<and> candidates mixed_fs ''b/submitted''
       = [''b/submitted/10.0.0.1/nofile'', ''b/submitted/10.0.0.1/broken'',
          ''b/submitted/10.0.0.1/good'']
   \<and> get_next_task (FileBasedSubmittedTaskFactory ''b'') mixed_fs
       = (Some (FileBasedTask (Some ''b/submitted/10.0.0.1/good'')
                  (PyDict [(''alpha'', PyNum ''0.1''), (''seeds'', PyStr ''G1'')])),
          (FileBasedSubmittedTaskFactory ''b'')\<lparr>problemlist := [''b/submitted/10.0.0.1/broken'']\<rparr>)
   \<and> (\<exists>new. (FileBasedSubmittedTaskFactory ''b'')\<lparr>problemlist := [''b/submitted/10.0.0.1/broken'']\<rparr>
              = (FileBasedSubmittedTaskFactory ''b'')
                  \<lparr>problemlist := problemlist (FileBasedSubmittedTaskFactory ''b'') @ new\<rparr>
            \<and> distinct new)"
proof -
  have h1: "submitdir (FileBasedSubmittedTaskFactory ''b'') = Some ''b/submitted''"
    by code_simp
  have h2: "get_next_task (FileBasedSubmittedTaskFactory ''b'') mixed_fs
       = (Some (FileBasedTask (Some ''b/submitted/10.0.0.1/good'')
                  (PyDict [(''alpha'', PyNum ''0.1''), (''seeds'', PyStr ''G1'')])),
          (FileBasedSubmittedTaskFactory ''b'')\<lparr>problemlist := [''b/submitted/10.0.0.1/broken'']\<rparr>)"
    by code_simp
  have c: "candidates mixed_fs ''b/submitted''
       = [''b/submitted/10.0.0.1/nofile'', ''b/submitted/10.0.0.1/broken'',
          ''b/submitted/10.0.0.1/good'']"
    by code_simp
  have "\<exists>new. (FileBasedSubmittedTaskFactory ''b'')\<lparr>problemlist := [''b/submitted/10.0.0.1/broken'']\<rparr>
              = (FileBasedSubmittedTaskFactory ''b'')
                  \<lparr>problemlist := problemlist (FileBasedSubmittedTaskFactory ''b'') @ new\<rparr>
            \<and> distinct new"
    using get_next_task_quarantine [OF h1 h2] by blast
  with h1 h2 c show ?thesis
    by (intro conjI)
qed

subsection \<open>The cleanup pass\<close>

text \<open>
  C3. Two quarantined tasks and one cleanup pass: the loop removes the first entry from
  the list it iterates over, so its index is past the end before the second entry is
  visited. The second task stays in the problem list and under submitted, its record
  untouched.
\<close>

theorem clean_up_problem_list_leaves_entry:
  "problemlist (snd (get_next_task (FileBasedSubmittedTaskFactory ''b'') corrupt_fs))
     = [''b/submitted/10.0.0.1/abc'', ''b/submitted/10.0.0.1/xyz'']
   \<and> (case clean_up_problem_list
             (snd (get_next_task (FileBasedSubmittedTaskFactory ''b'') corrupt_fs)) corrupt_fs of
        (r, f, fs) \<Rightarrow>
          r = Inr ()
          \<and> problemlist f = [''b/submitted/10.0.0.1/xyz'']
          \<and> isdir fs ''b/done/10.0.0.1/abc''
          \<and> isdir fs ''b/submitted/10.0.0.1/xyz''
          \<and> read_json fs ''b/submitted/10.0.0.1/xyz/task.json''
              = Inl (ValueError ''No JSON object could be decoded''))"
  by code_simp

lemma cleanup_move_cases:
  assumes "move_task ERROR_STATUS (Some m) (FileBasedTask (Some e) (PyDict [])) fs = (r, t', fs')"
  shows "(state_of_path e = ERROR_STATUS \<and> fs' = fs)
       \<or> (\<exists>x. r = Inl x \<and> oplog fs' = oplog fs)
       \<or> (\<exists>x. r = Inl x
            \<and> oplog fs' = oplog fs
                @ [OpWrite (path_join e TASK_JSON) (JsonText (PyDict [(ERROR_PARAM, PyStr m)]))])
       \<or> (oplog fs' = oplog fs
                @ [OpWrite (path_join e TASK_JSON) (JsonText (PyDict [(ERROR_PARAM, PyStr m)])),
                   OpMove e (relocated e DONE_STATUS)])"
proof -
  let ?t = "FileBasedTask (Some e) (PyDict [])"
  let ?t1 = "?t\<lparr>taskdict := PyDict [(ERROR_PARAM, PyStr m)]\<rparr>"
  have d: "taskdir ?t = Some e" and d1: "taskdir ?t1 = Some e"
    and res: "resultdata ?t1 = PyNone" and td1: "taskdict ?t1 = PyDict [(ERROR_PARAM, PyStr m)]"
    by (simp_all add: FileBasedTask_def)
  have st: "state (get_uuid_ip_state_basedir_from_path ?t) = Some (state_of_path e)"
    using d by (rule get_state_path)
  have bd: "basedir (get_uuid_ip_state_basedir_from_path ?t) \<noteq> None"
    using d by (rule basedir_Some)
  show ?thesis
  proof (cases "state_of_path e = ERROR_STATUS")
    case True
    then show ?thesis
      using assms st bd by (simp add: move_task_def Let_def)
  next
    case False
    obtain rs fs1 where sv: "save_task ?t1 fs = (rs, fs1)"
      by (cases "save_task ?t1 fs")
    note sc = save_task_cases [OF d1 sv]
    have set1: "setitem (taskdict ?t) ERROR_PARAM (PyStr m) = Inr (PyDict [(ERROR_PARAM, PyStr m)])"
      by (simp add: setitem_def FileBasedTask_def)
    show ?thesis
    proof (cases rs)
      case (Inl x)
      then have "r = Inl x" "fs' = fs1"
        using assms st bd False set1 sv by (auto simp: move_task_def Let_def)
      then show ?thesis
        using sc Inl res td1 by auto
    next
      case (Inr y)
      then have w: "oplog fs1 = oplog fs
                @ [OpWrite (path_join e TASK_JSON) (JsonText (PyDict [(ERROR_PARAM, PyStr m)]))]"
        using sc res td1 by auto
      define ptaskdir where "ptaskdir = relocated e DONE_STATUS"
      have jt: "join_taskdir (get_uuid_ip_state_basedir_from_path ?t) DONE_STATUS = Inr ptaskdir"
        by (simp add: join_taskdir_def get_uuid_ip_state_basedir_from_path_def
            FileBasedTask_def Let_def ptaskdir_def relocated_def task_path_def)
      show ?thesis
      proof (cases "shutil_move e ptaskdir fs1")
        case (Inl x)
        then have "r = Inl x" "fs' = fs1"
          using assms st bd False set1 sv \<open>rs = Inr y\<close> jt d1 by (auto simp: move_task_def Let_def)
        then show ?thesis
          using w by auto
      next
        case (Inr fs2)
        then have "fs' = fs2"
          using assms st bd False set1 sv \<open>rs = Inr y\<close> jt d1 by (auto simp: move_task_def Let_def)
        then show ?thesis
          using w shutil_move_oplog [OF Inr] by (auto simp: ptaskdir_def)
      qed
    qed
  qed
qed

lemma cleanup_op_mono: "set pl1 \<subseteq> set pl \<Longrightarrow> cleanup_op pl1 op \<Longrightarrow> cleanup_op pl op"
  by (cases op) (auto simp: cleanup_op_def)

lemma clean_up_loop_log:
  assumes "clean_up_loop i pl fs = (r, pl', fs')"
    and "list_all (\<lambda>e. state_of_path e \<noteq> ERROR_STATUS) pl"
  shows "set pl' \<subseteq> set pl
       \<and> (\<exists>new. oplog fs' = oplog fs @ new \<and> list_all (cleanup_op pl) new
              \<and> (\<forall>e \<in> set pl. e \<notin> set pl' \<longrightarrow>
                    OpWrite (path_join e TASK_JSON) (JsonText only_error) \<in> set new))"
  using assms
proof (induction i pl fs arbitrary: r pl' fs' rule: clean_up_loop.induct)
  case (1 i pl fs)
  let ?e = "pl ! i"
  let ?W = "OpWrite (path_join ?e TASK_JSON) (JsonText only_error)"
  let ?M = "OpMove ?e (relocated ?e DONE_STATUS)"
  show ?case
  proof (cases "i < length pl")
    case False
    then have "pl' = pl" "fs' = fs"
      using "1.prems"(1) by (simp_all add: clean_up_loop.simps [of i pl fs])
    then show ?thesis
      by simp
  next
    case True
    then have mem: "?e \<in> set pl"
      by simp
    then have ok: "state_of_path ?e \<noteq> ERROR_STATUS"
      using "1.prems"(2) by (simp add: list_all_iff)
    obtain r1 t1 fs1 where mv:
      "move_task ERROR_STATUS (Some ''Unknown error with task'')
         (FileBasedTask (Some ?e) (PyDict [])) fs = (r1, t1, fs1)"
      by (cases "move_task ERROR_STATUS (Some ''Unknown error with task'')
                   (FileBasedTask (Some ?e) (PyDict [])) fs")
    from cleanup_move_cases [OF mv] ok have step:
      "(\<exists>x. r1 = Inl x) \<and> (oplog fs1 = oplog fs \<or> oplog fs1 = oplog fs @ [?W])
       \<or> oplog fs1 = oplog fs @ [?W, ?M]"
      by (auto simp: only_error_def)
    have wop: "cleanup_op pl ?W" and mop: "cleanup_op pl ?M"
      using mem by (auto simp: cleanup_op_def)
    show ?thesis
    proof (cases r1)
      case (Inl x)
      then have res: "pl' = pl" "fs' = fs1"
        using "1.prems"(1) True mv by (simp_all add: clean_up_loop.simps [of i pl fs])
      from step have "\<exists>new. oplog fs1 = oplog fs @ new \<and> list_all (cleanup_op pl) new"
      proof (elim disjE conjE exE)
        assume "oplog fs1 = oplog fs"
        then show ?thesis by simp
      next
        assume "oplog fs1 = oplog fs @ [?W]"
        then show ?thesis using wop by simp
      next
        assume "oplog fs1 = oplog fs @ [?W, ?M]"
        then show ?thesis using wop mop by simp
      qed
      then show ?thesis
        using res by auto
    next
      case (Inr v)
      then have rec: "clean_up_loop (Suc i) (remove1 ?e pl) fs1 = (r, pl', fs')"
        using "1.prems"(1) True mv by (simp add: clean_up_loop.simps [of i pl fs])
      have ok1: "list_all (\<lambda>e. state_of_path e \<noteq> ERROR_STATUS) (remove1 ?e pl)"
        using "1.prems"(2) by (auto simp: list_all_iff dest: notin_set_remove1)
      from "1.IH" [OF True mv [symmetric] Inr refl rec ok1] obtain new1 where
        sub1: "set pl' \<subseteq> set (remove1 ?e pl)"
        and log1: "oplog fs' = oplog fs1 @ new1"
        and ops1: "list_all (cleanup_op (remove1 ?e pl)) new1"
        and gone1: "\<forall>e \<in> set (remove1 ?e pl). e \<notin> set pl' \<longrightarrow>
                     OpWrite (path_join e TASK_JSON) (JsonText only_error) \<in> set new1"
        by blast
      have sub: "set (remove1 ?e pl) \<subseteq> set pl"
        by (rule set_remove1_subset)
      from step Inr have log0: "oplog fs1 = oplog fs @ [?W, ?M]"
        by auto
      have ops: "list_all (cleanup_op pl) ([?W, ?M] @ new1)"
        using ops1 wop mop cleanup_op_mono [OF sub] by (auto simp: list_all_iff)
      have gone: "OpWrite (path_join e TASK_JSON) (JsonText only_error)
                    \<in> set ([?W, ?M] @ new1)"
        if "e \<in> set pl" "e \<notin> set pl'" for e
      proof (cases "e \<in> set (remove1 ?e pl)")
        case True
        then show ?thesis using gone1 that by simp
      next
        case False
        then have "e = ?e"
          using that(1) by (metis in_set_remove1)
        then show ?thesis by simp
      qed
      have "oplog fs' = oplog fs @ ([?W, ?M] @ new1)"
        using log0 log1 by simp
      then show ?thesis
        using sub1 sub ops gone by blast
    qed
  qed
qed

text \<open>
  C9. Two quarantined tasks and one cleanup pass. For the first entry the pass builds a
  task with the empty dict as metadata and moves it to the error state: its record file
  is overwritten with a record holding only the error field and goes with the directory
  to done. The second entry is never visited (the loop removes from the list it
  iterates over): the log of the pass shows no write to its record file, which holds
  what it held, and there is no record file for it under done.
\<close>

theorem clean_up_problem_list_skips_record:
  "problemlist (snd (get_next_task (FileBasedSubmittedTaskFactory ''b'') corrupt_fs))
     = [''b/submitted/10.0.0.1/abc'', ''b/submitted/10.0.0.1/xyz'']
   \<and> (case clean_up_problem_list
             (snd (get_next_task (FileBasedSubmittedTaskFactory ''b'') corrupt_fs)) corrupt_fs of
        (r, f, fs) \<Rightarrow>
          r = Inr ()
          \<and> oplog fs = [OpWrite ''b/submitted/10.0.0.1/abc/task.json'' (JsonText only_error),
                        OpMove ''b/submitted/10.0.0.1/abc'' ''b/done/10.0.0.1/abc'']
          \<and> map_of (files fs) ''b/done/10.0.0.1/abc/task.json''
              = Some (JsonText (PyDict [(''error'', PyStr ''Unknown error with task'')]))
          \<and> map_of (files fs) ''b/submitted/10.0.0.1/xyz/task.json'' = Some (RawText ''{'')
          \<and> \<not> isfile fs ''b/done/10.0.0.1/xyz/task.json'')"
  by code_simp

subsection \<open>The runner loop\<close>

lemma list_record_body:
  "run_tasks_body example_collaborators ''public.ndexbio.org'' (start list_record_fs)
   = (Some (TypeError ''object does not support item assignment''),
      \<lparr>taskfactory = FileBasedSubmittedTaskFactory ''b'', cleanupcounter = 0,
       fsys = list_record_fs
         \<lparr>dirs := [''b'', ''b/submitted'', ''b/submitted/10.0.0.1'',
                   ''b/processing/10.0.0.1/abc'', ''b/processing'', ''b/processing/10.0.0.1''],
          files := [(''b/processing/10.0.0.1/abc/task.json'', JsonText (PyList []))],
          oplog := [OpMove ''b/submitted/10.0.0.1/abc'' ''b/processing/10.0.0.1/abc'']\<rparr>\<rparr>)"
  by code_simp

text \<open>
  C7. A submitted task whose record file holds the JSON list \<^verbatim>\<open>[]\<close>: the record parses,
  so the task is fetched and moved to processing; no network is found, and storing the
  error message into the list raises a \<^verbatim>\<open>TypeError\<close>. The handler of \<^verbatim>\<open>run_tasks\<close> catches
  it and calls \<^verbatim>\<open>move_task\<close> with the error state, which raises the same \<^verbatim>\<open>TypeError\<close>
  again, now outside any \<^verbatim>\<open>try\<close>: the loop ends in its first iteration, however many it
  is given, and the task stays under processing with its record unchanged.
\<close>

theorem list_record_terminates_runner:
  "fst (run_tasks (Suc n) example_collaborators ''public.ndexbio.org'' (start list_record_fs))
     = Some (TypeError ''object does not support item assignment'')
   \<and> isdir (fsys (snd (run_tasks (Suc n) example_collaborators ''public.ndexbio.org''
                          (start list_record_fs))))
        ''b/processing/10.0.0.1/abc''
   \<and> read_json (fsys (snd (run_tasks (Suc n) example_collaborators ''public.ndexbio.org''
                              (start list_record_fs))))
        ''b/processing/10.0.0.1/abc/task.json'' = Inr (PyList [])"
  by (simp add: list_record_body isdir_def read_json_def json_load_def)

lemma submitted_entryI:
  assumes "is_name ip" "is_name u"
  shows "submitted_entry td (task_path td SUBMITTED_STATUS ip u)"
proof -
  let ?y = "path_join (path_join td SUBMITTED_STATUS) ip"
  have n: "normal ?y"
    using assms(1) by (simp add: is_name_def join_name_normal)
  have "basename (path_join ?y u) = u"
    using assms(2) by (simp add: is_name_def basename_join)
  moreover have "dirname (path_join ?y u) = ?y"
    using assms(2) n by (simp add: is_name_def dirname_join)
  moreover have "basename ?y = ip"
    using assms(1) by (simp add: is_name_def basename_join)
  ultimately show ?thesis
    using assms by (simp add: submitted_entry_def task_path_def)
qed

lemma submitted_entryD:
  assumes "submitted_entry td p"
  obtains ip u where "is_name ip" "is_name u" "p = task_path td SUBMITTED_STATUS ip u"
  using assms by (auto simp: submitted_entry_def)

lemma submitted_entry_state:
  assumes "normal td" "submitted_entry td p"
  shows "state_of_path p = SUBMITTED_STATUS"
  using assms(2) state_of_task_path [OF assms(1) status_names(1)]
  by (auto elim!: submitted_entryD)

lemma candidates_submitted:
  assumes "d \<in> set (candidates fs (path_join td SUBMITTED_STATUS))"
  shows "submitted_entry td d"
proof -
  from assms obtain e s where "e \<in> set (listdir fs (path_join td SUBMITTED_STATUS))"
    and "s \<in> set (listdir fs (path_join (path_join td SUBMITTED_STATUS) e))"
    and "d = path_join (path_join (path_join td SUBMITTED_STATUS) e) s"
    by (auto simp: candidates_def split: if_splits)
  then show ?thesis
    using submitted_entryI [of e s td] listdir_is_name by (simp add: task_path_def)
qed

lemma process_diffusion_forward:
  assumes wf: "normal b" "is_name ip" "is_name u"
    and dir: "taskdir t = Some (task_path b PROCESSING_STATUS ip u)"
    and run: "process_diffusion c t fs = (r, t', fs')"
  shows "forward_since fs fs'
       \<and> (\<forall>e. r = Inl e \<longrightarrow> taskdir t' = Some (task_path b PROCESSING_STATUS ip u))"
proof (cases "run_nbgwas c t")
  case (Inl e)
  then show ?thesis
    using run dir by (auto simp: process_diffusion_def forward_since_refl)
next
  case (Inr result)
  show ?thesis
  proof (cases "result = PyNone")
    case True
    then have "and_return (move_task ERROR_STATUS (Some ''No result generated'') t fs) = (r, t', fs')"
      using run Inr by (simp add: process_diffusion_def)
    then show ?thesis
      using and_return_forward [OF wf dir] by blast
  next
    case False
    let ?t5 = "t\<lparr>resultdata := result\<rparr>"
    have dir5: "taskdir ?t5 = Some (task_path b PROCESSING_STATUS ip u)"
      using dir by simp
    obtain rs fs1 where sv: "save_task ?t5 fs = (rs, fs1)"
      by (cases "save_task ?t5 fs")
    note f1 = save_task_forward [OF sv]
    show ?thesis
    proof (cases rs)
      case (Inl e)
      then show ?thesis
        using run Inr False sv f1 dir5 by (auto simp: process_diffusion_def)
    next
      case rsr: (Inr x)
      then have "and_return (move_task DONE_STATUS None ?t5 fs1) = (r, t', fs')"
        using run Inr False sv by (simp add: process_diffusion_def)
      then have "forward_since fs1 fs'
         \<and> (\<forall>e. r = Inl e \<longrightarrow> taskdir t' = Some (task_path b PROCESSING_STATUS ip u))"
        using and_return_forward [OF wf dir5] by blast
      then show ?thesis
        using f1 forward_since_trans by blast
    qed
  qed
qed

lemma process_summary_forward:
  assumes wf: "normal b" "is_name ip" "is_name u"
    and dir: "taskdir t = Some (task_path b PROCESSING_STATUS ip u)"
    and run: "process_summary c t fs = (r, t', fs')"
  shows "forward_since fs fs'
       \<and> (\<forall>e. r = Inl e \<longrightarrow> taskdir t' = Some (task_path b PROCESSING_STATUS ip u))"
proof (cases "create_gene_level_summary t")
  case (Inl e)
  then show ?thesis
    using run dir by (auto simp: process_summary_def forward_since_refl)
next
  case (Inr g)
  then obtain gls where g: "g = Some gls"
    using create_gene_level_summary_not_None [of t] by (cases g) auto
  have "taskdir (t\<lparr>genelevelsummary := Some gls\<rparr>) = Some (task_path b PROCESSING_STATUS ip u)"
    using dir by simp
  moreover have "process_diffusion c (t\<lparr>genelevelsummary := Some gls\<rparr>) fs = (r, t', fs')"
    using run Inr g by (simp add: process_summary_def)
  ultimately show ?thesis
    by (rule process_diffusion_forward [OF wf])
qed

lemma process_seeds_forward:
  assumes wf: "normal b" "is_name ip" "is_name u"
    and dir: "taskdir t = Some (task_path b PROCESSING_STATUS ip u)"
    and run: "process_seeds c t fs = (r, t', fs')"
  shows "forward_since fs fs'
       \<and> (\<forall>e. r = Inl e \<longrightarrow> taskdir t' = Some (task_path b PROCESSING_STATUS ip u))"
proof -
  let ?goal = "forward_since fs fs'
       \<and> (\<forall>e. r = Inl e \<longrightarrow> taskdir t' = Some (task_path b PROCESSING_STATUS ip u))"
  have err: ?goal
    if "and_return (move_task ERROR_STATUS (Some ''No seeds are in network'') t fs) = (r, t', fs')"
    using and_return_forward [OF wf dir _ that] by blast
  have go: ?goal
    if "process_summary c (t\<lparr>filteredseedlist := Some sl\<rparr>) fs = (r, t', fs')" for sl
  proof -
    have "taskdir (t\<lparr>filteredseedlist := Some sl\<rparr>) = Some (task_path b PROCESSING_STATUS ip u)"
      using dir by simp
    then show ?thesis
      using that by (rule process_summary_forward [OF wf])
  qed
  show ?thesis
  proof (cases "runner_get_seeds t")
    case (Inl e)
    then show ?thesis
      using run dir by (auto simp: process_seeds_def forward_since_refl)
  next
    case (Inr x)
    show ?thesis
    proof (cases x)
      case None
      then show ?thesis
        using run Inr err by (simp add: process_seeds_def)
    next
      case (Some sl)
      then show ?thesis
        using run Inr err go [of sl] by (cases "length sl = 0") (simp_all add: process_seeds_def)
    qed
  qed
qed

lemma process_network_forward:
  assumes wf: "normal b" "is_name ip" "is_name u"
    and dir: "taskdir t = Some (task_path b PROCESSING_STATUS ip u)"
    and run: "process_network c server t fs = (r, t', fs')"
  shows "forward_since fs fs'
       \<and> (\<forall>e. r = Inl e \<longrightarrow> taskdir t' = Some (task_path b PROCESSING_STATUS ip u))"
proof (cases "runner_get_networkx_object c server t fs")
  case (Inl e)
  then show ?thesis
    using run dir by (auto simp: process_network_def forward_since_refl)
next
  case (Inr x)
  show ?thesis
  proof (cases x)
    case None
    then have "and_return
            (move_task ERROR_STATUS (Some ''Unable to get networkx object for task'') t fs)
          = (r, t', fs')"
      using run Inr by (simp add: process_network_def)
    then show ?thesis
      using and_return_forward [OF wf dir] by blast
  next
    case (Some g)
    have "taskdir (t\<lparr>networkx_obj := Some g\<rparr>) = Some (task_path b PROCESSING_STATUS ip u)"
      using dir by simp
    moreover have "process_seeds c (t\<lparr>networkx_obj := Some g\<rparr>) fs = (r, t', fs')"
      using run Inr Some by (simp add: process_network_def)
    ultimately show ?thesis
      by (rule process_seeds_forward [OF wf])
  qed
qed

lemma process_task_forward:
  assumes wf: "normal b" "is_name ip" "is_name u"
    and dir: "taskdir t = Some (task_path b SUBMITTED_STATUS ip u)"
    and run: "process_task c server t fs = (r, t', fs')"
  shows "forward_since fs fs'
       \<and> (\<forall>e. r = Inl e \<longrightarrow> taskdir t' = Some (task_path b SUBMITTED_STATUS ip u)
                           \<or> taskdir t' = Some (task_path b PROCESSING_STATUS ip u))"
proof -
  obtain r1 t1 fs1 where mv: "move_task PROCESSING_STATUS None t fs = (r1, t1, fs1)"
    by (cases "move_task PROCESSING_STATUS None t fs")
  have "SUBMITTED_STATUS = SUBMITTED_STATUS
          \<and> PROCESSING_STATUS \<in> {PROCESSING_STATUS, DONE_STATUS, ERROR_STATUS}
        \<or> SUBMITTED_STATUS = PROCESSING_STATUS \<and> PROCESSING_STATUS \<in> {DONE_STATUS, ERROR_STATUS}"
    by simp
  note m1 = move_task_forward [OF wf dir this mv]
  show ?thesis
  proof (cases r1)
    case (Inl e)
    then show ?thesis
      using run dir mv m1 by (auto simp: process_task_def)
  next
    case (Inr x)
    then have d1: "taskdir t1 = Some (task_path b PROCESSING_STATUS ip u)"
      using m1 status_distinct by auto
    have "process_network c server t1 fs1 = (r, t', fs')"
      using run dir mv Inr by (simp add: process_task_def)
    from process_network_forward [OF wf d1 this] m1 show ?thesis
      using forward_since_trans by blast
  qed
qed

lemma cleanup_op_forward:
  assumes "normal td" "list_all (submitted_entry td) pl" "cleanup_op pl op"
  shows "forward_move op"
proof (cases op)
  case (OpWrite p c)
  then show ?thesis by (simp add: forward_move_def)
next
  case (OpMove src dst)
  then have "submitted_entry td src" and dst: "dst = relocated src DONE_STATUS"
    using assms(2,3) by (auto simp: cleanup_op_def list_all_iff)
  then obtain ip u where n: "is_name ip" "is_name u" and src: "src = task_path td SUBMITTED_STATUS ip u"
    by (auto elim!: submitted_entryD)
  have "dst = task_path td DONE_STATUS ip u"
    using dst src relocated_task_path [OF assms(1) status_names(1) n] by simp
  then show ?thesis
    using OpMove src
      forward_task_move [OF assms(1) n status_names(1,3) status_ranks(1,3)]
    by simp
qed

lemma clean_up_forward:
  assumes "normal td" and "factory_inv td f"
    and "clean_up_problem_list f fs = (r, f', fs')"
  shows "forward_since fs fs' \<and> factory_inv td f'"
proof -
  obtain pl' where loop: "clean_up_loop 0 (problemlist f) fs = (r, pl', fs')"
    and f': "f' = f\<lparr>problemlist := pl'\<rparr>"
    using assms(3)
    by (cases "clean_up_loop 0 (problemlist f) fs") (auto simp: clean_up_problem_list_def)
  have entries: "list_all (submitted_entry td) (problemlist f)"
    using assms(2) by (simp add: factory_inv_def)
  have "list_all (\<lambda>e. state_of_path e \<noteq> ERROR_STATUS) (problemlist f)"
    using entries submitted_entry_state [OF assms(1)] status_distinct(3)
    by (auto simp: list_all_iff)
  from clean_up_loop_log [OF loop this] obtain new where
    sub: "set pl' \<subseteq> set (problemlist f)" and log: "oplog fs' = oplog fs @ new"
    and ops: "list_all (cleanup_op (problemlist f)) new"
    by blast
  have "list_all forward_move new"
    using ops cleanup_op_forward [OF assms(1) entries] by (auto simp: list_all_iff)
  then have "forward_since fs fs'"
    using log by (rule forward_since_step [rotated])
  moreover have "factory_inv td f'"
    using assms(2) sub f' by (auto simp: factory_inv_def list_all_iff)
  ultimately show ?thesis
    by simp
qed

lemma get_next_task_inv:
  assumes "factory_inv td f" and "get_next_task f fs = (r, f')"
  shows "factory_inv td f'
       \<and> (\<forall>t. r = Some t \<longrightarrow> (\<exists>d. taskdir t = Some d \<and> submitted_entry td d))"
proof (cases "isdir fs (path_join td SUBMITTED_STATUS)")
  case False
  then show ?thesis
    using assms by (auto simp: get_next_task_def factory_inv_def)
next
  case True
  have sd: "submitdir f = Some (path_join td SUBMITTED_STATUS)"
    using assms(1) by (simp add: factory_inv_def)
  let ?cs = "candidates fs (path_join td SUBMITTED_STATUS)"
  obtain pl' where sc: "scan_candidates fs ?cs (problemlist f) = (r, pl')"
    and f': "f' = f\<lparr>problemlist := pl'\<rparr>"
    using assms(2) get_next_task_flat [OF sd True]
    by (cases "scan_candidates fs ?cs (problemlist f)") auto
  from scan_candidates_new [OF sc] obtain new where
    new: "pl' = problemlist f @ new" "\<forall>d \<in> set new. d \<in> set ?cs"
    by blast
  have "list_all (submitted_entry td) pl'"
    using new assms(1) candidates_submitted by (auto simp: factory_inv_def list_all_iff)
  then have inv: "factory_inv td f'"
    using f' sd by (simp add: factory_inv_def)
  have "\<exists>d. taskdir t = Some d \<and> submitted_entry td d" if rt: "r = Some t" for t
  proof -
    have "scan_candidates fs ?cs (problemlist f) = (Some t, pl')"
      using sc rt by simp
    from scan_candidates_Some [OF this] obtain pre d post v where
      "?cs = pre @ d # post" "t = FileBasedTask (Some d) v"
      by blast
    then have "d \<in> set ?cs" "taskdir t = Some d"
      by (simp_all add: FileBasedTask_def)
    then show ?thesis
      using candidates_submitted by blast
  qed
  then show ?thesis
    using inv by blast
qed

lemma run_tasks_body_forward:
  assumes td: "normal td" and inv: "factory_inv td (taskfactory st)"
    and body: "run_tasks_body c server st = (r, st')"
  shows "forward_since (fsys st) (fsys st') \<and> factory_inv td (taskfactory st')"
proof -
  obtain ot f where gn: "get_next_task (taskfactory st) (fsys st) = (ot, f)"
    by (cases "get_next_task (taskfactory st) (fsys st)")
  note g = get_next_task_inv [OF inv gn]
  then have finv: "factory_inv td f"
    by simp
  show ?thesis
  proof (cases ot)
    case None
    show ?thesis
    proof (cases "get_size_of_problem_list f > 0 \<and> cleanupcounter st + 1 \<ge> 3")
      case False
      then have "fsys st' = fsys st" "taskfactory st' = f"
        using body gn None by (auto simp: run_tasks_body_def Let_def split: if_splits)
      then show ?thesis
        using finv by (simp add: forward_since_refl)
    next
      case True
      obtain rc fc fsc where cl: "clean_up_problem_list f (fsys st) = (rc, fc, fsc)"
        by (cases "clean_up_problem_list f (fsys st)")
      then have "fsys st' = fsc" "taskfactory st' = fc"
        using body gn None True by (auto simp: run_tasks_body_def Let_def split: sum.splits)
      then show ?thesis
        using clean_up_forward [OF td finv cl] by simp
    qed
  next
    case (Some t)
    then obtain d where d: "taskdir t = Some d" "submitted_entry td d"
      using g by blast
    then obtain ip u where n: "is_name ip" "is_name u"
      and dir: "taskdir t = Some (task_path td SUBMITTED_STATUS ip u)"
      by (auto elim!: submitted_entryD)
    obtain rp tp fsp where pt: "process_task c server t (fsys st) = (rp, tp, fsp)"
      by (cases "process_task c server t (fsys st)")
    note p = process_task_forward [OF td n dir pt]
    show ?thesis
    proof (cases rp)
      case (Inr x)
      then have "fsys st' = fsp" "taskfactory st' = f"
        using body gn Some pt by (auto simp: run_tasks_body_def)
      then show ?thesis
        using p finv by simp
    next
      case (Inl e)
      then obtain stt where dp: "taskdir tp = Some (task_path td stt ip u)"
        and stt: "stt = SUBMITTED_STATUS \<or> stt = PROCESSING_STATUS"
        using p by auto
      let ?emsg = "''Caught exception processing task: '' @ task_path td stt ip u @ '' : ''
                   @ str_exn e"
      obtain rh th fsh where hm: "move_task ERROR_STATUS (Some ?emsg) tp fsp = (rh, th, fsh)"
        by (cases "move_task ERROR_STATUS (Some ?emsg) tp fsp")
      have "stt = SUBMITTED_STATUS
              \<and> ERROR_STATUS \<in> {PROCESSING_STATUS, DONE_STATUS, ERROR_STATUS}
            \<or> stt = PROCESSING_STATUS \<and> ERROR_STATUS \<in> {DONE_STATUS, ERROR_STATUS}"
        using stt by auto
      from move_task_forward [OF td n dp this hm] have "forward_since fsp fsh"
        by simp
      then have "forward_since (fsys st) fsh"
        using p forward_since_trans by blast
      moreover have "fsys st' = fsh" "taskfactory st' = f"
        using body gn Some pt Inl dp hm by (auto simp: run_tasks_body_def split: sum.splits)
      ultimately show ?thesis
        using finv by simp
    qed
  qed
qed

lemma run_tasks_forward:
  assumes "normal td"
  shows "factory_inv td (taskfactory st) \<Longrightarrow> run_tasks n c server st = (r, st')
         \<Longrightarrow> forward_since (fsys st) (fsys st')"
proof (induction n arbitrary: st)
  case 0
  then show ?case
    by (simp add: forward_since_refl)
next
  case (Suc n)
  obtain rb sb where body: "run_tasks_body c server st = (rb, sb)"
    by (cases "run_tasks_body c server st")
  note b = run_tasks_body_forward [OF assms Suc.prems(1) body]
  show ?case
  proof (cases rb)
    case (Some e)
    then show ?thesis
      using Suc.prems(2) body b by simp
  next
    case None
    then have "run_tasks n c server sb = (r, st')"
      using Suc.prems(2) body by simp
    from Suc.IH [OF _ this] b show ?thesis
      using forward_since_trans by blast
  qed
qed

text \<open>
  C8. The runner started on a task root \<open>td\<close>, on any filesystem, with any
  collaborators, for any number of loop iterations (fetching, processing, handling
  exceptions, cleaning up the problem list): every move of a task directory it makes
  goes from a path in one of the states submitted, processing, done to a path in a
  strictly later one. The log holds each move with the paths the runner passed to
  \<^verbatim>\<open>shutil.move\<close>, which are the task's recorded directory before and after.
\<close>

theorem run_tasks_moves_forward:
  assumes "normal td"
    and "run_tasks n c server
           \<lparr>taskfactory = FileBasedSubmittedTaskFactory td, cleanupcounter = k, fsys = fs\<rparr>
         = (r, st')"
  shows "forward_since fs (fsys st')"
proof -
  have "factory_inv td (taskfactory
          \<lparr>taskfactory = FileBasedSubmittedTaskFactory td, cleanupcounter = k, fsys = fs\<rparr>)"
    by (simp add: factory_inv_def FileBasedSubmittedTaskFactory_def)
  from run_tasks_forward [OF assms(1) this assms(2)] show ?thesis
    by simp
qed

theorem run_tasks_moves_forward_witness:
  "normal ''b''
   \<and> forward_since mixed_fs
        (fsys (snd (run_tasks (Suc (Suc (Suc (Suc 0)))) example_collaborators
                      ''public.ndexbio.org''
                      \<lparr>taskfactory = FileBasedSubmittedTaskFactory ''b'', cleanupcounter = 0,
                       fsys = mixed_fs\<rparr>)))
   \<and> map (\<lambda>op. case op of OpMove src dst \<Rightarrow> [src, dst] | OpWrite p c \<Rightarrow> [p])
        (oplog (fsys (snd (run_tasks (Suc (Suc (Suc (Suc 0)))) example_collaborators
                             ''public.ndexbio.org''
                             \<lparr>taskfactory = FileBasedSubmittedTaskFactory ''b'',
                              cleanupcounter = 0, fsys = mixed_fs\<rparr>))))
      = [[''b/submitted/10.0.0.1/good'', ''b/processing/10.0.0.1/good''],
         [''b/processing/10.0.0.1/good/task.json''],
         [''b/processing/10.0.0.1/good'', ''b/done/10.0.0.1/good''],
         [''b/submitted/10.0.0.1/broken/task.json''],
         [''b/submitted/10.0.0.1/broken'', ''b/done/10.0.0.1/broken'']]"
proof -
  have h1: "normal ''b''"
    by code_simp
  have h2: "run_tasks (Suc (Suc (Suc (Suc 0)))) example_collaborators ''public.ndexbio.org''
              \<lparr>taskfactory = FileBasedSubmittedTaskFactory ''b'', cleanupcounter = 0,
               fsys = mixed_fs\<rparr>
            = (fst (run_tasks (Suc (Suc (Suc (Suc 0)))) example_collaborators
                      ''public.ndexbio.org''
                      \<lparr>taskfactory = FileBasedSubmittedTaskFactory ''b'', cleanupcounter = 0,
                       fsys = mixed_fs\<rparr>),
               snd (run_tasks (Suc (Suc (Suc (Suc 0)))) example_collaborators
                      ''public.ndexbio.org''
                      \<lparr>taskfactory = FileBasedSubmittedTaskFactory ''b'', cleanupcounter = 0,
                       fsys = mixed_fs\<rparr>))"
    by simp
  have e: "map (\<lambda>op. case op of OpMove src dst \<Rightarrow> [src, dst] | OpWrite p c \<Rightarrow> [p])
        (oplog (fsys (snd (run_tasks (Suc (Suc (Suc (Suc 0)))) example_collaborators
                             ''public.ndexbio.org''
                             \<lparr>taskfactory = FileBasedSubmittedTaskFactory ''b'',
                              cleanupcounter = 0, fsys = mixed_fs\<rparr>))))
      = [[''b/submitted/10.0.0.1/good'', ''b/processing/10.0.0.1/good''],
         [''b/processing/10.0.0.1/good/task.json''],
         [''b/processing/10.0.0.1/good'', ''b/done/10.0.0.1/good''],
         [''b/submitted/10.0.0.1/broken/task.json''],
         [''b/submitted/10.0.0.1/broken'', ''b/done/10.0.0.1/broken'']]"
    by code_simp
  from h1 run_tasks_moves_forward [OF h1 h2] e show ?thesis
    by (intro conjI)
qed

end
